theory Spec2Isabelle
  imports Main "HOL-Library.Word" "HOL-Library.Sublist"
begin

section \<open>Strings of the host language\<close>

text \<open>
  A string of the program is a sequence of UTF-16 code units; \<open>length\<close>, \<open>indexOf\<close> and
  \<open>slice\<close> count code units. \<open>str\<close> embeds an ASCII literal; the Chinese literals of the
  source are written as their code units.
\<close>

type_synonym jsstring = "16 word list"

definition str :: "string \<Rightarrow> jsstring" where
  "str s = map (\<lambda>c. of_nat (of_char c)) s"

text \<open>White space and line terminators: what \<open>String.prototype.trim\<close> removes and what
  \<open>\s\<close> matches in a regular expression.\<close>

definition is_space :: "16 word \<Rightarrow> bool" where
  "is_space c \<longleftrightarrow>
     c = 0x09 \<or> c = 0x0A \<or> c = 0x0B \<or> c = 0x0C \<or> c = 0x0D \<or> c = 0x20 \<or> c = 0xA0 \<or>
     c = 0x1680 \<or> (0x2000 \<le> c \<and> c \<le> 0x200A) \<or> c = 0x2028 \<or> c = 0x2029 \<or>
     c = 0x202F \<or> c = 0x205F \<or> c = 0x3000 \<or> c = 0xFEFF"

definition trim_end :: "jsstring \<Rightarrow> jsstring" where
  "trim_end s = rev (dropWhile is_space (rev s))"

definition js_trim :: "jsstring \<Rightarrow> jsstring" where
  "js_trim s = trim_end (dropWhile is_space s)"

text \<open>\<open>s.indexOf(m)\<close>: the first position at which \<open>m\<close> occurs in \<open>s\<close>, or \<open>-1\<close>.\<close>

fun indexOf_from :: "jsstring \<Rightarrow> jsstring \<Rightarrow> nat \<Rightarrow> int" where
  "indexOf_from [] m i = (if m = [] then int i else - 1)"
| "indexOf_from (x # xs) m i =
     (if prefix m (x # xs) then int i else indexOf_from xs m (Suc i))"

definition indexOf :: "jsstring \<Rightarrow> jsstring \<Rightarrow> int" where
  "indexOf s m = indexOf_from s m 0"

text \<open>\<open>s.slice(start, end)\<close>: a negative index counts from the end, and both are clamped
  to the string.\<close>

definition js_slice :: "jsstring \<Rightarrow> int \<Rightarrow> int \<Rightarrow> jsstring" where
  "js_slice s start fin =
     (let len = int (length s);
          from = (if start < 0 then max (len + start) 0 else min start len);
          to = (if fin < 0 then max (len + fin) 0 else min fin len)
      in take (nat (to - from)) (drop (nat from) s))"

text \<open>\<open>s.slice(start)\<close>, to the end of the string.\<close>

definition js_slice_from :: "jsstring \<Rightarrow> int \<Rightarrow> jsstring" where
  "js_slice_from s start = js_slice s start (int (length s))"

text \<open>\<open>parts.join(sep)\<close> on an array of strings.\<close>

fun js_join :: "jsstring \<Rightarrow> jsstring list \<Rightarrow> jsstring" where
  "js_join sep [] = []"
| "js_join sep [x] = x"
| "js_join sep (x # y # ys) = x @ sep @ js_join sep (y # ys)"


section \<open>The marker-based section splitter: \<open>parseClaudeResponse\<close>\<close>

record sections =
  outline :: jsstring
  "opening" :: jsstring

definition openMarker :: jsstring where
  "openMarker = [0x3010, 0x5F00, 0x573A, 0x767D, 0x3011]"

definition outlineMarker :: jsstring where
  "outlineMarker = [0x3010, 0x5927, 0x7EB2, 0x3011]"

text \<open>The alternate cues, in the order of the source: three headings naming the outline,
  then a line starting with \<open>- \<close> and a line starting with \<open>* \<close>.\<close>

definition altMarkers :: "jsstring list" where
  "altMarkers =
     [[0x5927, 0x7EB2, 0xFF1A],
      str ''## '' @ [0x5927, 0x7EB2],
      str ''## '' @ [0x5185, 0x5BB9, 0x5927, 0x7EB2],
      [0x0A] @ str ''- '',
      [0x0A] @ str ''* '']"

text \<open>The inner function \<open>sliceSection\<close>; the text it closes over is its first argument.\<close>

definition sliceSection :: "jsstring \<Rightarrow> int \<Rightarrow> int \<Rightarrow> int \<Rightarrow> jsstring" where
  "sliceSection text startIdx markerLen untilIdx =
     (if startIdx = - 1 then []
      else let start = startIdx + markerLen;
               fin = (if untilIdx = - 1 then int (length text) else untilIdx)
           in js_trim (js_slice text start fin))"

text \<open>The loop over the alternate cues: the first cue of the list that occurs decides, and
  the loop stops there.\<close>

fun strip_alt :: "jsstring list \<Rightarrow> jsstring \<Rightarrow> jsstring" where
  "strip_alt [] seg = seg"
| "strip_alt (m # ms) seg =
     (let i = indexOf seg m
      in if i \<noteq> - 1 then js_trim (js_slice_from seg (i + int (length m)))
         else strip_alt ms seg)"

definition parseClaudeResponse :: "jsstring \<Rightarrow> sections" where
  "parseClaudeResponse text =
     (let openIdx = indexOf text openMarker;
          outlineIdx = indexOf text outlineMarker
      in if openIdx \<noteq> - 1 \<and> outlineIdx \<noteq> - 1 then
           \<lparr> outline = sliceSection text outlineIdx (int (length outlineMarker))
                         (if openIdx > outlineIdx then openIdx else - 1),
             opening = sliceSection text openIdx (int (length openMarker))
                         (if outlineIdx > openIdx then outlineIdx else - 1) \<rparr>
         else if openIdx \<noteq> - 1 then
           \<lparr> outline = strip_alt altMarkers (js_trim (js_slice text 0 openIdx)),
             opening = sliceSection text openIdx (int (length openMarker)) (- 1) \<rparr>
         else if outlineIdx \<noteq> - 1 then
           \<lparr> outline = sliceSection text outlineIdx (int (length outlineMarker)) (- 1),
             opening = [] \<rparr>
         else
           \<lparr> outline = js_trim (js_slice text 0 (int (length text) div 2)),
             opening = js_trim text \<rparr>)"


section \<open>Values and exceptions of the host language\<close>

text \<open>
  The two exceptions that the built-in operations used by the program can throw. A
  computation that may throw has a result of type \<open>exn + 'a\<close>, with \<open>Inl\<close> the exception.
\<close>

datatype exn = SyntaxError | TypeError

definition bind_exn :: "exn + 'a \<Rightarrow> ('a \<Rightarrow> exn + 'b) \<Rightarrow> exn + 'b" where
  "bind_exn m f = (case m of Inl e \<Rightarrow> Inl e | Inr x \<Rightarrow> f x)"

text \<open>Evaluation from left to right: the first exception ends it.\<close>

fun sequence_exn :: "(exn + 'a) list \<Rightarrow> exn + 'a list" where
  "sequence_exn [] = Inr []"
| "sequence_exn (m # ms) =
     (case m of
        Inl e \<Rightarrow> Inl e
      | Inr x \<Rightarrow> (case sequence_exn ms of Inl e \<Rightarrow> Inl e | Inr xs \<Rightarrow> Inr (x # xs)))"

text \<open>
  The values that \<open>JSON.parse\<close> can build, and \<open>undefined\<close>. An object is the list of its
  own properties, each name once. A number is represented by the string that
  \<open>Number.prototype.toString\<close> gives for it, so that its coercion to a string is exact;
  how a numeric literal is rounded to a number is floating-point arithmetic and is not
  modelled: it is the parameter \<open>number_reading\<close> of the decoder below.
\<close>

datatype jsvalue =
    JUndefined
  | JNull
  | JBool bool
  | JNum jsstring
  | JStr jsstring
  | JArr "jsvalue list"
  | JObj "(jsstring \<times> jsvalue) list"

fun typeof :: "jsvalue \<Rightarrow> string" where
  "typeof JUndefined = ''undefined''"
| "typeof JNull = ''object''"
| "typeof (JBool b) = ''boolean''"
| "typeof (JNum n) = ''number''"
| "typeof (JStr s) = ''string''"
| "typeof (JArr xs) = ''object''"
| "typeof (JObj fs) = ''object''"

text \<open>\<open>ToBoolean\<close>. Zero (of either sign) prints as \<open>0\<close> and is falsy, as is \<open>NaN\<close>.\<close>

fun truthy :: "jsvalue \<Rightarrow> bool" where
  "truthy JUndefined = False"
| "truthy JNull = False"
| "truthy (JBool b) = b"
| "truthy (JNum n) = (n \<noteq> str ''0'' \<and> n \<noteq> str ''NaN'')"
| "truthy (JStr s) = (s \<noteq> [])"
| "truthy (JArr xs) = True"
| "truthy (JObj fs) = True"

text \<open>\<open>v == null\<close>: true of \<open>null\<close> and \<open>undefined\<close> only.\<close>

fun is_nullish :: "jsvalue \<Rightarrow> bool" where
  "is_nullish JUndefined = True"
| "is_nullish JNull = True"
| "is_nullish v = False"

text \<open>\<open>Array.isArray\<close>, and the elements of an array (read by \<open>length\<close> and \<open>map\<close>).\<close>

fun isArray :: "jsvalue \<Rightarrow> bool" where
  "isArray (JArr xs) = True"
| "isArray v = False"

fun elems :: "jsvalue \<Rightarrow> jsvalue list" where
  "elems (JArr xs) = xs"
| "elems v = []"

text \<open>The string held by a value already known to be a string.\<close>

fun str_of :: "jsvalue \<Rightarrow> jsstring" where
  "str_of (JStr s) = s"
| "str_of v = []"

text \<open>
  Reading a property, \<open>o.k\<close> or \<open>o[k]\<close>: a \<open>TypeError\<close> on \<open>null\<close> and \<open>undefined\<close>. The
  names that the program reads (\<open>outline\<close>, \<open>items\<close>, \<open>summary\<close>, \<open>opening\<close>,
  \<open>visualCode\<close>, \<open>text\<close>, \<open>core\<close>, \<open>logic\<close>, \<open>insight\<close> and the three Chinese keys) are
  defined on no prototype and are neither an index nor \<open>length\<close>, so the read finds an own
  property of an object, or nothing.
\<close>

fun js_get :: "jsvalue \<Rightarrow> jsstring \<Rightarrow> exn + jsvalue" where
  "js_get JUndefined k = Inl TypeError"
| "js_get JNull k = Inl TypeError"
| "js_get (JObj fs) k = Inr (case map_of fs k of Some v \<Rightarrow> v | None \<Rightarrow> JUndefined)"
| "js_get v k = Inr JUndefined"

text \<open>\<open>a ?? b\<close>: the right operand is evaluated only when the left one is nullish.\<close>

definition coalesce :: "jsvalue \<Rightarrow> exn + jsvalue \<Rightarrow> exn + jsvalue" where
  "coalesce a m = (if is_nullish a then m else Inr a)"

text \<open>
  \<open>String(v)\<close>. An array is joined with commas, \<open>null\<close> and \<open>undefined\<close> elements giving
  the empty string. An object is converted by its \<open>toString\<close> method: the inherited one
  answers \<open>[object Object]\<close>; an own property \<open>toString\<close> of a decoded object is never a
  function, \<open>valueOf\<close> (own or inherited) then gives no primitive value either, and the
  conversion throws a \<open>TypeError\<close>.
\<close>

fun js_String :: "jsvalue \<Rightarrow> exn + jsstring" where
  "js_String JUndefined = Inr (str ''undefined'')"
| "js_String JNull = Inr (str ''null'')"
| "js_String (JBool b) = Inr (if b then str ''true'' else str ''false'')"
| "js_String (JNum n) = Inr n"
| "js_String (JStr s) = Inr s"
| "js_String (JArr xs) =
     (case sequence_exn (map (\<lambda>x. if is_nullish x then Inr [] else js_String x) xs) of
        Inl e \<Rightarrow> Inl e
      | Inr parts \<Rightarrow> Inr (js_join (str '','') parts))"
| "js_String (JObj fs) =
     (if str ''toString'' \<in> fst ` set fs then Inl TypeError
      else Inr (str ''[object Object]''))"

section \<open>\<open>JSON.parse\<close>\<close>

text \<open>
  The JSON grammar of the language standard, read by recursive descent. Each function
  takes the text that is left and returns what it read with the rest, or \<open>None\<close> where
  the decoder throws a \<open>SyntaxError\<close>. The comparisons of lengths before a recursive
  call on a remainder make the termination evident; \<open>parser_consumes\<close> below
  shows that they always hold.
\<close>

definition json_ws :: "16 word \<Rightarrow> bool" where
  "json_ws c \<longleftrightarrow> c = 0x09 \<or> c = 0x0A \<or> c = 0x0D \<or> c = 0x20"

definition skip_ws :: "jsstring \<Rightarrow> jsstring" where
  "skip_ws s = dropWhile json_ws s"

definition is_digit :: "16 word \<Rightarrow> bool" where
  "is_digit c \<longleftrightarrow> 0x30 \<le> c \<and> c \<le> 0x39"

definition hex_digit :: "16 word \<Rightarrow> bool" where
  "hex_digit c \<longleftrightarrow> is_digit c \<or> (0x41 \<le> c \<and> c \<le> 0x46) \<or> (0x61 \<le> c \<and> c \<le> 0x66)"

definition hex_val :: "16 word \<Rightarrow> 16 word" where
  "hex_val c = (if is_digit c then c - 0x30 else if c \<le> 0x46 then c - 0x37 else c - 0x57)"

definition escape_char :: "16 word \<Rightarrow> 16 word option" where
  "escape_char e =
     (if e = 0x22 \<or> e = 0x5C \<or> e = 0x2F then Some e
      else if e = 0x62 then Some 0x08
      else if e = 0x66 then Some 0x0C
      else if e = 0x6E then Some 0x0A
      else if e = 0x72 then Some 0x0D
      else if e = 0x74 then Some 0x09
      else None)"

text \<open>The characters of a string after its opening quote, up to the closing quote.\<close>

fun parse_chars :: "jsstring \<Rightarrow> jsstring \<Rightarrow> (jsstring \<times> jsstring) option" where
  "parse_chars [] acc = None"
| "parse_chars (c # s) acc =
     (if c = 0x22 then Some (acc, s)
      else if c = 0x5C then
        (case s of
           [] \<Rightarrow> None
         | e # s' \<Rightarrow>
             if e = 0x75 then
               (case s' of
                  h1 # h2 # h3 # h4 # s'' \<Rightarrow>
                    if hex_digit h1 \<and> hex_digit h2 \<and> hex_digit h3 \<and> hex_digit h4
                    then parse_chars s''
                           (acc @ [hex_val h1 * 0x1000 + hex_val h2 * 0x100
                                     + hex_val h3 * 0x10 + hex_val h4])
                    else None
                | _ \<Rightarrow> None)
             else (case escape_char e of
                     None \<Rightarrow> None
                   | Some x \<Rightarrow> parse_chars s' (acc @ [x])))
      else if c < 0x20 then None
      else parse_chars s (acc @ [c]))"

text \<open>A number: an optional minus sign, an integer part without a leading zero, an
  optional fraction and an optional exponent. The result is the text of the literal.\<close>

definition parse_int_part :: "jsstring \<Rightarrow> (jsstring \<times> jsstring) option" where
  "parse_int_part s =
     (let ds = takeWhile is_digit s
      in if ds = [] \<or> (hd ds = 0x30 \<and> tl ds \<noteq> []) then None
         else Some (ds, dropWhile is_digit s))"

definition parse_frac :: "jsstring \<Rightarrow> (jsstring \<times> jsstring) option" where
  "parse_frac s =
     (case s of
        [] \<Rightarrow> Some ([], [])
      | c # r \<Rightarrow>
          if c = 0x2E then
            (let ds = takeWhile is_digit r
             in if ds = [] then None else Some (c # ds, dropWhile is_digit r))
          else Some ([], s))"

definition parse_exp :: "jsstring \<Rightarrow> (jsstring \<times> jsstring) option" where
  "parse_exp s =
     (case s of
        [] \<Rightarrow> Some ([], [])
      | c # r \<Rightarrow>
          if c = 0x65 \<or> c = 0x45 then
            (let (sg, r1) = (case r of
                               [] \<Rightarrow> ([], [])
                             | d # r' \<Rightarrow> if d = 0x2B \<or> d = 0x2D then ([d], r') else ([], r));
                 ds = takeWhile is_digit r1
             in if ds = [] then None else Some (c # sg @ ds, dropWhile is_digit r1))
          else Some ([], s))"

definition parse_number :: "jsstring \<Rightarrow> (jsstring \<times> jsstring) option" where
  "parse_number s =
     (let (sg, s1) = (case s of
                        [] \<Rightarrow> ([], [])
                      | c # r \<Rightarrow> if c = 0x2D then ([c], r) else ([], s))
      in case parse_int_part s1 of
           None \<Rightarrow> None
         | Some (ip, s2) \<Rightarrow>
             (case parse_frac s2 of
                None \<Rightarrow> None
              | Some (fp, s3) \<Rightarrow>
                  (case parse_exp s3 of
                     None \<Rightarrow> None
                   | Some (ep, s4) \<Rightarrow> Some (sg @ ip @ fp @ ep, s4))))"

text \<open>Defining a property: a repeated name in an object text overwrites the value.\<close>

fun put_prop :: "jsstring \<Rightarrow> jsvalue \<Rightarrow> (jsstring \<times> jsvalue) list \<Rightarrow> (jsstring \<times> jsvalue) list" where
  "put_prop k v [] = [(k, v)]"
| "put_prop k v ((k', v') # fs) = (if k' = k then (k, v) # fs else (k', v') # put_prop k v fs)"

text \<open>The number that a numeric literal denotes, as the string that number prints as.\<close>

type_synonym number_reading = "jsstring \<Rightarrow> jsstring"

function parse_value :: "number_reading \<Rightarrow> jsstring \<Rightarrow> (jsvalue \<times> jsstring) option"
  and parse_elements :: "number_reading \<Rightarrow> jsstring \<Rightarrow> jsvalue list \<Rightarrow> (jsvalue \<times> jsstring) option"
  and parse_members :: "number_reading \<Rightarrow> jsstring \<Rightarrow> (jsstring \<times> jsvalue) list
                          \<Rightarrow> (jsvalue \<times> jsstring) option"
where
  "parse_value N s =
     (case skip_ws s of
        [] \<Rightarrow> None
      | c # r \<Rightarrow>
          if c = 0x7B then
            (case skip_ws r of
               [] \<Rightarrow> None
             | d # r' \<Rightarrow> if d = 0x7D then Some (JObj [], r') else parse_members N r [])
          else if c = 0x5B then
            (case skip_ws r of
               [] \<Rightarrow> None
             | d # r' \<Rightarrow> if d = 0x5D then Some (JArr [], r') else parse_elements N r [])
          else if c = 0x22 then
            (case parse_chars r [] of None \<Rightarrow> None | Some (x, r') \<Rightarrow> Some (JStr x, r'))
          else if c = 0x2D \<or> is_digit c then
            (case parse_number (c # r) of None \<Rightarrow> None | Some (l, r') \<Rightarrow> Some (JNum (N l), r'))
          else if prefix (str ''true'') (c # r) then Some (JBool True, drop 3 r)
          else if prefix (str ''false'') (c # r) then Some (JBool False, drop 4 r)
          else if prefix (str ''null'') (c # r) then Some (JNull, drop 3 r)
          else None)"
| "parse_elements N s acc =
     (case parse_value N s of
        None \<Rightarrow> None
      | Some (v, r) \<Rightarrow>
          (case skip_ws r of
             [] \<Rightarrow> None
           | c # r' \<Rightarrow>
               if c = 0x2C then
                 (if length r' < length s then parse_elements N r' (acc @ [v]) else None)
               else if c = 0x5D then Some (JArr (acc @ [v]), r')
               else None))"
| "parse_members N s acc =
     (case skip_ws s of
        [] \<Rightarrow> None
      | q # r \<Rightarrow>
          if q = 0x22 then
            (case parse_chars r [] of
               None \<Rightarrow> None
             | Some (k, r1) \<Rightarrow>
                 (case skip_ws r1 of
                    [] \<Rightarrow> None
                  | c # r2 \<Rightarrow>
                      if c = 0x3A \<and> length r2 < length s then
                        (case parse_value N r2 of
                           None \<Rightarrow> None
                         | Some (v, r3) \<Rightarrow>
                             (case skip_ws r3 of
                                [] \<Rightarrow> None
                              | d # r4 \<Rightarrow>
                                  if d = 0x2C then
                                    (if length r4 < length s
                                     then parse_members N r4 (put_prop k v acc) else None)
                                  else if d = 0x7D then Some (JObj (put_prop k v acc), r4)
                                  else None))
                      else None))
          else None)"
  by pat_completeness auto

termination
proof (relation "measure (\<lambda>x. case x of
          Inl (N, s) \<Rightarrow> 2 * length s
        | Inr (Inl (N, s, acc)) \<Rightarrow> 2 * length s + 1
        | Inr (Inr (N, s, acc)) \<Rightarrow> 2 * length s + 1)", goal_cases)
  case 1
  show ?case by simp
next
  case (2 N s c r d r')
  have "length (skip_ws s) \<le> length s" by (simp add: skip_ws_def length_dropWhile_le)
  with 2 show ?case by simp
next
  case (3 N s c r d r')
  have "length (skip_ws s) \<le> length s" by (simp add: skip_ws_def length_dropWhile_le)
  with 3 show ?case by simp
next
  case 4
  then show ?case by simp
next
  case 5
  then show ?case by simp
next
  case 6
  then show ?case by simp
next
  case 7
  then show ?case by simp
qed

text \<open>\<open>JSON.parse(s)\<close>: one value, with nothing but white space after it.\<close>

definition JSON_parse :: "number_reading \<Rightarrow> jsstring \<Rightarrow> exn + jsvalue" where
  "JSON_parse N s =
     (case parse_value N s of
        None \<Rightarrow> Inl SyntaxError
      | Some (v, r) \<Rightarrow> if skip_ws r = [] then Inr v else Inl SyntaxError)"


section \<open>The outline renderer: \<open>itemsToOutline\<close>\<close>

text \<open>The function mapped over the items.\<close>

definition item_line :: "jsvalue \<Rightarrow> exn + jsstring" where
  "item_line item =
     bind_exn
       (if typeof item = ''string'' then Inr item
        else bind_exn
               (if truthy item \<and> typeof item = ''object''
                then bind_exn (js_get item (str ''text'')) (\<lambda>t. Inr (\<not> is_nullish t))
                else Inr False)
               (\<lambda>c. if c then js_get item (str ''text'')
                    else bind_exn (js_String item) (\<lambda>s. Inr (JStr s))))
       (\<lambda>text. bind_exn (js_String text) (\<lambda>s. Inr (str ''- '' @ js_trim s)))"

definition itemsToOutline :: "jsvalue \<Rightarrow> exn + jsstring" where
  "itemsToOutline items =
     (if \<not> isArray items \<or> length (elems items) = 0 then Inr []
      else bind_exn (sequence_exn (map item_line (elems items)))
             (\<lambda>lines. Inr (js_join [0x0A] lines)))"


section \<open>The item normalizer: \<open>normalizeItemForFrontend\<close>\<close>

definition key_core :: jsstring where
  "key_core = [0x6838, 0x5FC3, 0x91D1, 0x53E5]"

definition key_logic :: jsstring where
  "key_logic = [0x903B, 0x8F91, 0x62C6, 0x89E3]"

definition key_insight :: jsstring where
  "key_insight = [0x4E92, 0x52A8, 0x5EFA, 0x8BAE]"

text \<open>The object literal \<open>{ text: t }\<close>.\<close>

definition text_obj :: "jsstring \<Rightarrow> jsvalue" where
  "text_obj t = JObj [(str ''text'', JStr t)]"

text \<open>\<open>item[native] ?? item[alias] ?? ''\<close>\<close>

definition read_field :: "jsvalue \<Rightarrow> jsstring \<Rightarrow> jsstring \<Rightarrow> exn + jsvalue" where
  "read_field item native alias =
     bind_exn (bind_exn (js_get item native) (\<lambda>a. coalesce a (js_get item alias)))
       (\<lambda>x. coalesce x (Inr (JStr [])))"

text \<open>\<open>if (v) parts.push(String(v).trim())\<close>\<close>

definition push_part :: "jsvalue \<Rightarrow> jsstring list \<Rightarrow> exn + jsstring list" where
  "push_part v parts =
     (if truthy v then bind_exn (js_String v) (\<lambda>s. Inr (parts @ [js_trim s]))
      else Inr parts)"

definition normalizeItemForFrontend :: "jsvalue \<Rightarrow> exn + jsvalue" where
  "normalizeItemForFrontend item =
     (if is_nullish item then Inr (text_obj [])
      else if typeof item = ''string'' then Inr (text_obj (js_trim (str_of item)))
      else if typeof item \<noteq> ''object'' then bind_exn (js_String item) (\<lambda>s. Inr (text_obj s))
      else bind_exn (js_get item (str ''text'')) (\<lambda>t.
        if \<not> is_nullish t \<and> typeof t = ''string'' then Inr (text_obj (js_trim (str_of t)))
        else
          bind_exn (read_field item key_core (str ''core'')) (\<lambda>core.
          bind_exn (read_field item key_logic (str ''logic'')) (\<lambda>logic.
          bind_exn (read_field item key_insight (str ''insight'')) (\<lambda>insight.
          bind_exn (push_part core []) (\<lambda>parts1.
          bind_exn (push_part logic parts1) (\<lambda>parts2.
          bind_exn (push_part insight parts2) (\<lambda>parts.
            Inr (text_obj (js_join [0x0A] parts))))))))))"


section \<open>The structured response parser: \<open>parseAIResponse\<close>\<close>

definition fence :: jsstring where
  "fence = [0x60, 0x60, 0x60]"

definition to_lower :: "16 word \<Rightarrow> 16 word" where
  "to_lower c = (if 0x41 \<le> c \<and> c \<le> 0x5A then c + 0x20 else c)"

text \<open>\<open>raw.replace(/^```(?:json)?\s*/i, '')\<close>: the pattern is anchored at the start, and
  the optional group and the star are greedy and cannot fail, so the first attempt is the
  match. Ignoring case, the letters of \<open>json\<close> match their two ASCII forms only.\<close>

definition strip_open_fence :: "jsstring \<Rightarrow> jsstring" where
  "strip_open_fence raw =
     (if prefix fence raw then
        (let r = drop 3 raw;
             r' = (if map to_lower (take 4 r) = str ''json'' then drop 4 r else r)
         in dropWhile is_space r')
      else raw)"

text \<open>\<open>s.replace(/\s*```$/, '')\<close>: the match is the leftmost one, which starts where the
  run of white space before the final fence starts.\<close>

definition strip_close_fence :: "jsstring \<Rightarrow> jsstring" where
  "strip_close_fence s =
     (if suffix fence s then trim_end (take (length s - 3) s) else s)"

definition jsonStr_of :: "jsstring \<Rightarrow> jsstring" where
  "jsonStr_of raw = js_trim (strip_close_fence (strip_open_fence raw))"

record parsed = sections +
  items :: jsvalue
  visualCode :: jsvalue

text \<open>The statements of the \<open>try\<close> block after the decoding, up to the test that decides
  whether the block returns.\<close>

definition read_fields :: "jsvalue \<Rightarrow> exn + parsed" where
  "read_fields obj =
     (if truthy obj then
        bind_exn (js_get obj (str ''outline'')) (\<lambda>ol.
        bind_exn (js_get obj (str ''items'')) (\<lambda>its.
        bind_exn (if isArray its \<and> length (elems its) > 0
                  then bind_exn (itemsToOutline its) (\<lambda>rendered. Inr (its, rendered))
                  else Inr (JNull, if typeof ol = ''string'' then str_of ol else []))
          (\<lambda>(items1, outline1).
        bind_exn (js_get obj (str ''summary'')) (\<lambda>sm.
        bind_exn (js_get obj (str ''opening'')) (\<lambda>op.
        bind_exn (js_get obj (str ''visualCode'')) (\<lambda>vc.
        bind_exn (if \<not> is_nullish vc
                  then bind_exn (js_String vc)
                         (\<lambda>s. Inr (if js_trim s \<noteq> [] then JStr (js_trim s) else JNull))
                  else Inr JNull)
          (\<lambda>visual.
            Inr \<lparr> outline = outline1,
                  opening = (if typeof sm = ''string'' then str_of sm
                             else if typeof op = ''string'' then str_of op else []),
                  items = items1,
                  visualCode = visual \<rparr>)))))))
      else Inr \<lparr> outline = [], opening = [], items = JNull, visualCode = JNull \<rparr>)"

text \<open>The \<open>try\<close> block: \<open>Inl\<close> is an exception thrown in it, \<open>Inr None\<close> is control
  leaving the block at its end, \<open>Inr (Some r)\<close> is \<open>return r\<close>.\<close>

definition try_block :: "number_reading \<Rightarrow> jsstring \<Rightarrow> exn + parsed option" where
  "try_block N jsonStr =
     bind_exn (JSON_parse N jsonStr) (\<lambda>obj.
     bind_exn (read_fields obj) (\<lambda>r.
       Inr (if outline r \<noteq> [] \<or> opening r \<noteq> [] \<or> truthy (items r) then Some r else None)))"

text \<open>\<open>try { ... } catch (_) { }\<close>: any exception is swallowed and control goes on after
  the statement.\<close>

definition catch_all :: "exn + 'a option \<Rightarrow> exn + 'a option" where
  "catch_all m = (case m of Inl e \<Rightarrow> Inr None | Inr x \<Rightarrow> Inr x)"

text \<open>The result of the last two lines of the function, on the trimmed raw text.\<close>

definition fallback :: "jsstring \<Rightarrow> parsed" where
  "fallback raw =
     (let s = parseClaudeResponse raw
      in \<lparr> outline = outline s, opening = opening s, items = JNull, visualCode = JNull \<rparr>)"

text \<open>\<open>(text || '').trim()\<close>: a falsy argument stands for the empty string; a truthy
  argument that is not a string has no \<open>trim\<close> method.\<close>

definition raw_of :: "jsvalue \<Rightarrow> exn + jsstring" where
  "raw_of text =
     (if truthy text then (case text of JStr s \<Rightarrow> Inr (js_trim s) | _ \<Rightarrow> Inl TypeError)
      else Inr (js_trim []))"

definition parseAIResponse :: "number_reading \<Rightarrow> jsvalue \<Rightarrow> exn + parsed" where
  "parseAIResponse N text =
     bind_exn (raw_of text) (\<lambda>raw.
     bind_exn (catch_all (try_block N (jsonStr_of raw))) (\<lambda>returned.
       case returned of
         Some r \<Rightarrow> Inr r
       | None \<Rightarrow> Inr (fallback raw)))"


section \<open>Notions used to state the claims\<close>

text \<open>The own property \<open>k\<close> of an object with the properties \<open>fs\<close>, or \<open>undefined\<close>; and
  the property \<open>k\<close> of any decoded value, which only an object can have.\<close>

definition own :: "(jsstring \<times> jsvalue) list \<Rightarrow> jsstring \<Rightarrow> jsvalue" where
  "own fs k = (case map_of fs k of Some v \<Rightarrow> v | None \<Rightarrow> JUndefined)"

definition field :: "jsvalue \<Rightarrow> jsstring \<Rightarrow> jsvalue" where
  "field obj k = (case obj of JObj fs \<Rightarrow> own fs k | _ \<Rightarrow> JUndefined)"

text \<open>The field \<open>k\<close> of a decoded value if it is a string, else the empty string.\<close>

definition string_field :: "jsvalue \<Rightarrow> jsstring \<Rightarrow> jsstring" where
  "string_field obj k = (case field obj k of JStr s \<Rightarrow> s | _ \<Rightarrow> [])"

text \<open>
  The text that the renderer takes from one element: a string itself; for an object whose
  \<open>text\<close> property is neither \<open>null\<close> nor \<open>undefined\<close>, that property coerced to a string;
  for anything else its own coercion to a string.
\<close>

fun element_text :: "jsvalue \<Rightarrow> exn + jsstring" where
  "element_text (JStr s) = Inr s"
| "element_text (JObj fs) =
     (case map_of fs (str ''text'') of
        None \<Rightarrow> js_String (JObj fs)
      | Some t \<Rightarrow> if is_nullish t then js_String (JObj fs) else js_String t)"
| "element_text v = js_String v"

text \<open>
  The value of a field of a domain record: that of the native-language key if it is neither
  \<open>null\<close> nor \<open>undefined\<close>, else that of the English alias if it is neither, else the
  empty string.
\<close>

definition present :: "(jsstring \<times> jsvalue) list \<Rightarrow> jsstring \<Rightarrow> jsvalue option" where
  "present fs k = (case map_of fs k of None \<Rightarrow> None | Some v \<Rightarrow> if is_nullish v then None else Some v)"

definition field_value :: "(jsstring \<times> jsvalue) list \<Rightarrow> jsstring \<Rightarrow> jsstring \<Rightarrow> jsvalue" where
  "field_value fs native alias =
     (case present fs native of
        Some v \<Rightarrow> v
      | None \<Rightarrow> (case present fs alias of Some w \<Rightarrow> w | None \<Rightarrow> JStr []))"

text \<open>
  The text of a domain record, in the words of the amended claim C6: of the values of the
  three fields in the order core, logic, insight, those that are falsy in the host language
  (the empty string, \<open>false\<close>, zero) are left out; the others are coerced to strings,
  trimmed and joined by single newlines. The test comes before the trimming, and a coercion
  that throws makes the whole throw.
\<close>

definition domain_text :: "(jsstring \<times> jsvalue) list \<Rightarrow> exn + jsstring" where
  "domain_text fs =
     (case sequence_exn (map js_String (filter truthy
             [field_value fs key_core (str ''core''),
              field_value fs key_logic (str ''logic''),
              field_value fs key_insight (str ''insight'')])) of
        Inl e \<Rightarrow> Inl e
      | Inr ss \<Rightarrow> Inr (js_join [0x0A] (map js_trim ss)))"

text \<open>The opening that the parser reads from a decoded value: the \<open>summary\<close> if it is a
  string, else the \<open>opening\<close> if it is a string, else the empty string.\<close>

definition opening_of :: "jsvalue \<Rightarrow> jsstring" where
  "opening_of obj =
     (if typeof (field obj (str ''summary'')) = ''string'' then str_of (field obj (str ''summary''))
      else if typeof (field obj (str ''opening'')) = ''string''
      then str_of (field obj (str ''opening'')) else [])"

text \<open>
  A decoded value yields nothing when its \<open>outline\<close> is not a non-empty string, its
  \<open>items\<close> are not a non-empty array, and the opening read from it is empty.
\<close>

definition yields_nothing :: "jsvalue \<Rightarrow> bool" where
  "yields_nothing obj \<longleftrightarrow>
     string_field obj (str ''outline'') = []
     \<and> (case field obj (str ''items'') of JArr xs \<Rightarrow> xs = [] | _ \<Rightarrow> True)
     \<and> (case field obj (str ''summary'') of
          JStr sm \<Rightarrow> sm = []
        | _ \<Rightarrow> string_field obj (str ''opening'') = [])"


section \<open>Facts about \<open>indexOf\<close> and \<open>slice\<close>\<close>

lemma indexOf_from_found:
  "k \<le> length s \<Longrightarrow> prefix m (drop k s) \<Longrightarrow> (\<forall>j<k. \<not> prefix m (drop j s))
     \<Longrightarrow> indexOf_from s m i = int (i + k)"
proof (induction s arbitrary: k i)
  case Nil
  then show ?case by simp
next
  case (Cons x xs)
  show ?case
  proof (cases k)
    case 0
    with Cons.prems show ?thesis by simp
  next
    case (Suc k')
    from Cons.prems Suc have np: "\<not> prefix m (x # xs)" by fastforce
    have "\<forall>j<k'. \<not> prefix m (drop j xs)"
    proof (intro allI impI)
      fix j assume "j < k'"
      then have "Suc j < k" using Suc by simp
      with Cons.prems(3) have "\<not> prefix m (drop (Suc j) (x # xs))" by blast
      then show "\<not> prefix m (drop j xs)" by simp
    qed
    moreover have "k' \<le> length xs" "prefix m (drop k' xs)"
      using Cons.prems Suc by simp_all
    ultimately have "indexOf_from xs m (Suc i) = int (Suc i + k')"
      using Cons.IH by blast
    with np Suc show ?thesis by simp
  qed
qed

lemma indexOf_from_none:
  "(\<forall>j\<le>length s. \<not> prefix m (drop j s)) \<Longrightarrow> indexOf_from s m i = - 1"
proof (induction s arbitrary: i)
  case Nil
  then show ?case by auto
next
  case (Cons x xs)
  from Cons.prems have np: "\<not> prefix m (x # xs)" by fastforce
  have "\<forall>j\<le>length xs. \<not> prefix m (drop j xs)"
  proof (intro allI impI)
    fix j assume "j \<le> length xs"
    then have "Suc j \<le> length (x # xs)" by simp
    with Cons.prems have "\<not> prefix m (drop (Suc j) (x # xs))" by blast
    then show "\<not> prefix m (drop j xs)" by simp
  qed
  with Cons.IH np show ?case by simp
qed

lemma sublist_iff_drop: "sublist m s \<longleftrightarrow> (\<exists>j\<le>length s. prefix m (drop j s))"
proof
  assume "sublist m s"
  then obtain ps ss where "s = ps @ m @ ss" by (auto simp: sublist_def)
  then have "length ps \<le> length s" "prefix m (drop (length ps) s)" by simp_all
  then show "\<exists>j\<le>length s. prefix m (drop j s)" by blast
next
  assume "\<exists>j\<le>length s. prefix m (drop j s)"
  then obtain j ss where "drop j s = m @ ss" by (auto simp: prefix_def)
  then have "s = take j s @ m @ ss" by (metis append_take_drop_id)
  then show "sublist m s" unfolding sublist_def by blast
qed

lemma indexOf_none: "\<not> sublist m s \<Longrightarrow> indexOf s m = - 1"
  unfolding indexOf_def by (rule indexOf_from_none) (simp add: sublist_iff_drop)

lemma indexOf_first:
  "(\<forall>j<length pre. \<not> prefix m (drop j (pre @ m @ post)))
     \<Longrightarrow> indexOf (pre @ m @ post) m = int (length pre)"
  unfolding indexOf_def
  using indexOf_from_found [of "length pre" "pre @ m @ post" m 0] by simp

lemma indexOf_some: "sublist m s \<Longrightarrow> indexOf s m \<noteq> - 1"
proof -
  assume "sublist m s"
  then have ex: "\<exists>j. j \<le> length s \<and> prefix m (drop j s)" by (simp add: sublist_iff_drop)
  define k where "k = (LEAST j. j \<le> length s \<and> prefix m (drop j s))"
  have k: "k \<le> length s \<and> prefix m (drop k s)"
    unfolding k_def using ex by (rule LeastI_ex)
  have "\<forall>j<k. \<not> prefix m (drop j s)"
  proof (intro allI impI notI)
    fix j assume "j < k" "prefix m (drop j s)"
    then have "j \<le> length s \<and> prefix m (drop j s)" using k by simp
    then have "k \<le> j" unfolding k_def by (rule Least_le)
    with \<open>j < k\<close> show False by simp
  qed
  with k have "indexOf_from s m 0 = int (0 + k)" by (intro indexOf_from_found) simp_all
  then show ?thesis by (simp add: indexOf_def)
qed

lemma indexOf_none_iff: "indexOf s m = - 1 \<longleftrightarrow> \<not> sublist m s"
  using indexOf_none indexOf_some by blast

lemma no_straddle:
  assumes "m \<noteq> []" "hd m \<notin> set (tl m)" "\<not> sublist m pre" "j < length pre"
  shows "\<not> prefix m (drop j (pre @ m @ post))"
proof
  assume p: "prefix m (drop j (pre @ m @ post))"
  define o' where "o' = drop j pre"
  have o': "o' \<noteq> []" "drop j (pre @ m @ post) = o' @ m @ post"
    using assms(4) by (simp_all add: o'_def)
  from assms(1) obtain a m' where m: "m = a # m'" by (cases m) auto
  from p have "prefix m (o' @ (m @ post))" unfolding o'(2) .
  then have "prefix m o' \<or> (\<exists>us. m = o' @ us \<and> prefix us (m @ post))"
    by (rule prefix_append [THEN iffD1])
  then show False
  proof
    assume "prefix m o'"
    then have "sublist m o'" by (rule prefix_imp_sublist)
    moreover have "sublist o' pre" unfolding o'_def by (rule sublist_drop)
    ultimately have "sublist m pre" by (rule sublist_order.order_trans)
    with assms(3) show False by simp
  next
    assume "\<exists>us. m = o' @ us \<and> prefix us (m @ post)"
    then obtain us where us: "m = o' @ us" "prefix us (m @ post)" by blast
    from o'(1) obtain b o'' where o'': "o' = b # o''" by (cases o') auto
    show False
    proof (cases us)
      case Nil
      with us have "m = o'" by simp
      then have "sublist m pre" unfolding o'_def by simp
      with assms(3) show False by simp
    next
      case (Cons c us')
      with us(2) m have "c = a" by simp
      moreover from us(1) m o'' Cons have "m' = o'' @ c # us'" by simp
      ultimately have "a \<in> set m'" by simp
      with assms(2) m show False by simp
    qed
  qed
qed

lemma js_slice_mid: "js_slice (a @ b @ c) (int (length a)) (int (length a + length b)) = b"
  by (simp add: js_slice_def Let_def)

lemma js_slice_tail: "js_slice (a @ b) (int (length a)) (int (length (a @ b))) = b"
  by (simp add: js_slice_def Let_def)

lemma js_slice_take: "js_slice s 0 (int k) = take k s"
  by (simp add: js_slice_def Let_def min_def)

lemma js_slice_from_drop: "js_slice_from s (int k) = drop k s"
  by (simp add: js_slice_from_def js_slice_def Let_def min_def)

lemma open_no_outline: "j < 5 \<Longrightarrow> \<not> prefix outlineMarker (drop j openMarker @ X)"
proof -
  assume "j < 5"
  then consider "j = 0" | "j = 1" | "j = 2" | "j = 3" | "j = 4" by linarith
  then show ?thesis
    by cases (simp_all add: openMarker_def outlineMarker_def)
qed

lemma outline_no_open: "j < 4 \<Longrightarrow> \<not> prefix openMarker (drop j outlineMarker @ X)"
proof -
  assume "j < 4"
  then consider "j = 0" | "j = 1" | "j = 2" | "j = 3" by linarith
  then show ?thesis
    by cases (simp_all add: openMarker_def outlineMarker_def)
qed

lemma both_markers_first:
  assumes "length p = n" "\<And>j X. j < n \<Longrightarrow> \<not> prefix m (drop j p @ X)"
    and "m \<noteq> []" "hd m \<notin> set (tl m)" "\<not> sublist m Y"
  shows "indexOf (p @ Y @ m @ Z) m = int (n + length Y)"
proof -
  have "\<forall>j<length (p @ Y). \<not> prefix m (drop j ((p @ Y) @ m @ Z))"
  proof (intro allI impI)
    fix j assume j: "j < length (p @ Y)"
    show "\<not> prefix m (drop j ((p @ Y) @ m @ Z))"
    proof (cases "j < n")
      case True
      then have "drop j ((p @ Y) @ m @ Z) = drop j p @ (Y @ m @ Z)"
        using assms(1) by simp
      with assms(2) [OF True] show ?thesis by simp
    next
      case False
      then have "drop j ((p @ Y) @ m @ Z) = drop (j - n) (Y @ m @ Z)"
        using assms(1) by simp
      moreover have "j - n < length Y" using j False assms(1) by simp
      ultimately show ?thesis using no_straddle [OF assms(3,4,5)] by simp
    qed
  qed
  then have "indexOf ((p @ Y) @ m @ Z) m = int (length (p @ Y))" by (rule indexOf_first)
  with assms(1) show ?thesis by simp
qed

lemma indexOf_at_0: "indexOf (m @ Z) m = 0"
  using indexOf_first [of "[]" m Z] by simp

lemmas split_defs = parseClaudeResponse_def indexOf_def openMarker_def outlineMarker_def altMarkers_def
  str_def sliceSection_def js_slice_def js_slice_from_def js_trim_def trim_end_def is_space_def Let_def


section \<open>The decoder consumes what it reads\<close>

lemma parse_chars_shorter: "parse_chars s acc = Some (x, r) \<Longrightarrow> length r < length s"
proof (induction s acc rule: parse_chars.induct)
  case (1 acc)
  then show ?case by simp
next
  case (2 c s acc)
  then show ?case
    by (auto split: if_splits list.splits option.splits simp: less_Suc_eq)
qed

lemma length_dropWhile_less: "takeWhile P s \<noteq> [] \<Longrightarrow> length (dropWhile P s) < length s"
  by (cases s) (auto simp: less_Suc_eq_le length_dropWhile_le split: if_splits)

lemma parse_int_part_shorter: "parse_int_part s = Some (x, r) \<Longrightarrow> length r < length s"
  by (auto simp: parse_int_part_def Let_def length_dropWhile_less split: if_splits)

lemma parse_frac_shorter: "parse_frac s = Some (x, r) \<Longrightarrow> length r \<le> length s"
  by (auto simp: parse_frac_def Let_def le_SucI length_dropWhile_le split: if_splits list.splits)

lemma parse_exp_shorter: "parse_exp s = Some (x, r) \<Longrightarrow> length r \<le> length s"
  by (auto simp: parse_exp_def Let_def le_SucI length_dropWhile_le intro: le_trans
           split: if_splits list.splits prod.splits)

lemma parse_number_shorter: "parse_number s = Some (l, r) \<Longrightarrow> length r < length s"
proof -
  assume a: "parse_number s = Some (l, r)"
  obtain sg s1 where s1: "(case s of [] \<Rightarrow> ([], []) | c # r \<Rightarrow> if c = 0x2D then ([c], r) else ([], s)) = (sg, s1)"
    by (cases "(case s of [] \<Rightarrow> ([], []) | c # r \<Rightarrow> if c = 0x2D then ([c], r) else ([]::jsstring, s))") auto
  then have l1: "length s1 \<le> length s" by (auto split: list.splits if_splits)
  from a s1 obtain ip s2 fp s3 ep where
    p: "parse_int_part s1 = Some (ip, s2)" "parse_frac s2 = Some (fp, s3)" "parse_exp s3 = Some (ep, r)"
    by (auto simp: parse_number_def split: option.splits)
  from parse_int_part_shorter [OF p(1)] parse_frac_shorter [OF p(2)] parse_exp_shorter [OF p(3)] l1
  show ?thesis by simp
qed

lemma skip_ws_Cons_shorter: "skip_ws s = c # r \<Longrightarrow> length r < length s"
proof -
  assume "skip_ws s = c # r"
  then have "Suc (length r) = length (skip_ws s)" by simp
  also have "\<dots> \<le> length s" by (simp add: skip_ws_def length_dropWhile_le)
  finally show ?thesis by simp
qed

lemma parser_consumes:
  "parse_value N s = Some (v, r) \<Longrightarrow> length r < length s"
  "parse_elements N s acc = Some (v, r) \<Longrightarrow> length r < length s"
  "parse_members N s facc = Some (v, r) \<Longrightarrow> length r < length s"
proof (induction N s and N s acc and N s facc arbitrary: v r and v r and v r
       rule: parse_value_parse_elements_parse_members.induct)
  case (1 N s)
  from "1.prems" obtain c r0 where c: "skip_ws s = c # r0"
    by (cases "skip_ws s") (simp_all)
  note l0 = skip_ws_Cons_shorter [OF c]
  consider (obj) "c = 0x7B" | (arr) "c \<noteq> 0x7B" "c = 0x5B" | (strg) "c \<noteq> 0x7B" "c \<noteq> 0x5B" "c = 0x22"
    | (num) "c \<noteq> 0x7B" "c \<noteq> 0x5B" "c \<noteq> 0x22" "c = 0x2D \<or> is_digit c"
    | (lit) "c \<noteq> 0x7B" "c \<noteq> 0x5B" "c \<noteq> 0x22" "\<not> (c = 0x2D \<or> is_digit c)"
    by blast
  then show ?case
  proof cases
    case obj
    from "1.prems" c obj obtain d r' where d: "skip_ws r0 = d # r'"
      by (cases "skip_ws r0") simp_all
    show ?thesis
    proof (cases "d = 0x7D")
      case True
      with "1.prems" c obj d have "r = r'" by simp
      with skip_ws_Cons_shorter [OF d] l0 show ?thesis by simp
    next
      case False
      with "1.prems" c obj d have "parse_members N r0 [] = Some (v, r)" by simp
      from "1.IH"(1) [OF c obj d False this] l0 show ?thesis by simp
    qed
  next
    case arr
    from "1.prems" c arr obtain d r' where d: "skip_ws r0 = d # r'"
      by (cases "skip_ws r0") simp_all
    show ?thesis
    proof (cases "d = 0x5D")
      case True
      with "1.prems" c arr d have "r = r'" by simp
      with skip_ws_Cons_shorter [OF d] l0 show ?thesis by simp
    next
      case False
      with "1.prems" c arr d have "parse_elements N r0 [] = Some (v, r)" by simp
      from "1.IH"(2) [OF c arr d False this] l0 show ?thesis by simp
    qed
  next
    case strg
    with "1.prems" c obtain x where "parse_chars r0 [] = Some (x, r)"
      by (auto split: option.splits)
    from parse_chars_shorter [OF this] l0 show ?thesis by simp
  next
    case num
    with "1.prems" c obtain l where "parse_number (c # r0) = Some (l, r)"
      by (auto split: option.splits)
    from parse_number_shorter [OF this] c have "length r < length (skip_ws s)" by simp
    also have "\<dots> \<le> length s" by (simp add: skip_ws_def length_dropWhile_le)
    finally show ?thesis .
  next
    case lit
    with "1.prems" c have "r = drop 3 r0 \<or> r = drop 4 r0"
      by (auto split: if_splits)
    with l0 show ?thesis by auto
  qed
next
  case (2 N s acc)
  from "2.prems" obtain v0 r0 where p: "parse_value N s = Some (v0, r0)"
    by (cases "parse_value N s") auto
  from "2.prems" p obtain c r' where c: "skip_ws r0 = c # r'"
    by (cases "skip_ws r0") simp_all
  from "2.IH"(1) [OF p] skip_ws_Cons_shorter [OF c] have l: "length r' < length s" by simp
  show ?case
  proof (cases "c = 0x2C")
    case True
    with "2.prems" p c l have "parse_elements N r' (acc @ [v0]) = Some (v, r)" by simp
    from "2.IH"(2) [OF p refl c True l this] l show ?thesis by simp
  next
    case False
    with "2.prems" p c have "r = r'" by (auto split: if_splits)
    with l show ?thesis by simp
  qed
next
  case (3 N s facc)
  from "3.prems" obtain q r0 where q: "skip_ws s = q # r0"
    by (cases "skip_ws s") simp_all
  from "3.prems" q have q22: "q = 0x22" by (auto split: if_splits)
  from "3.prems" q q22 obtain k r1 where k: "parse_chars r0 [] = Some (k, r1)"
    by (cases "parse_chars r0 []") auto
  from "3.prems" q q22 k obtain c r2 where c: "skip_ws r1 = c # r2"
    by (cases "skip_ws r1") simp_all
  from "3.prems" q q22 k c have c3: "c = 0x3A \<and> length r2 < length s"
    by (auto split: if_splits)
  from "3.prems" q q22 k c c3 obtain v0 r3 where p: "parse_value N r2 = Some (v0, r3)"
    by (cases "parse_value N r2") auto
  from "3.prems" q q22 k c c3 p obtain d r4 where d: "skip_ws r3 = d # r4"
    by (cases "skip_ws r3") simp_all
  from "3.IH"(1) [OF q q22 k refl c c3 p] skip_ws_Cons_shorter [OF d] c3
  have l: "length r4 < length s" by simp
  show ?case
  proof (cases "d = 0x2C")
    case True
    with "3.prems" q q22 k c c3 p d l have "parse_members N r4 (put_prop k v0 facc) = Some (v, r)"
      by simp
    from "3.IH"(2) [OF q q22 k refl c c3 p refl d True l this] l show ?thesis by simp
  next
    case False
    with "3.prems" q q22 k c c3 p d have "r = r4" by (auto split: if_splits)
    with l show ?thesis by simp
  qed
qed


section \<open>Facts about the renderer and the normalizer\<close>

lemma item_line_eq:
  "item_line x = (case element_text x of Inl e \<Rightarrow> Inl e | Inr t \<Rightarrow> Inr (str ''- '' @ js_trim t))"
proof (cases x)
  case (JObj fs)
  then show ?thesis
    by (cases "map_of fs (str ''text'')")
       (auto simp: item_line_def bind_exn_def split: sum.splits)
qed (auto simp: item_line_def bind_exn_def split: sum.splits)

lemma sequence_exn_map:
  "sequence_exn (map (\<lambda>x. case f x of Inl e \<Rightarrow> Inl e | Inr t \<Rightarrow> Inr (g t)) xs)
     = (case sequence_exn (map f xs) of Inl e \<Rightarrow> Inl e | Inr ts \<Rightarrow> Inr (map g ts))"
  by (induction xs) (auto split: sum.splits)

lemma read_field_obj:
  "read_field (JObj fs) native alias = Inr (field_value fs native alias)"
  by (auto simp: read_field_def field_value_def present_def coalesce_def bind_exn_def
           split: option.splits)

lemma push3:
  "bind_exn (push_part a []) (\<lambda>p1. bind_exn (push_part b p1) (\<lambda>p2.
     bind_exn (push_part c p2) (\<lambda>parts. Inr (F parts))))
   = (case sequence_exn (map js_String (filter truthy [a, b, c])) of
        Inl e \<Rightarrow> Inl e
      | Inr ss \<Rightarrow> Inr (F (map js_trim ss)))"
  by (cases "js_String a"; cases "js_String b"; cases "js_String c")
     (simp_all add: push_part_def bind_exn_def)

lemma map_of_put_prop: "map_of (put_prop k v fs) = (map_of fs)(k \<mapsto> v)"
  by (induction fs) (auto simp: fun_eq_iff)

lemmas key_defs = key_core_def key_logic_def key_insight_def str_def

lemma normalize_cong:
  assumes "map_of fs (str ''text'') = map_of fs' (str ''text'')"
    and "field_value fs key_core (str ''core'') = field_value fs' key_core (str ''core'')"
    and "field_value fs key_logic (str ''logic'') = field_value fs' key_logic (str ''logic'')"
    and "field_value fs key_insight (str ''insight'') = field_value fs' key_insight (str ''insight'')"
  shows "normalizeItemForFrontend (JObj fs) = normalizeItemForFrontend (JObj fs')"
  unfolding normalizeItemForFrontend_def read_field_obj using assms by (simp cong: if_cong)

lemma key_neq:
  "str ''text'' \<noteq> key_core" "str ''text'' \<noteq> key_logic" "str ''text'' \<noteq> key_insight" "str ''text'' \<noteq> str ''core''" "str ''text'' \<noteq> str ''logic''" "str ''text'' \<noteq> str ''insight''" "key_core \<noteq> str ''text''" "key_core \<noteq> key_logic" "key_core \<noteq> key_insight" "key_core \<noteq> str ''core''" "key_core \<noteq> str ''logic''" "key_core \<noteq> str ''insight''" "key_logic \<noteq> str ''text''" "key_logic \<noteq> key_core" "key_logic \<noteq> key_insight" "key_logic \<noteq> str ''core''" "key_logic \<noteq> str ''logic''" "key_logic \<noteq> str ''insight''" "key_insight \<noteq> str ''text''" "key_insight \<noteq> key_core" "key_insight \<noteq> key_logic" "key_insight \<noteq> str ''core''" "key_insight \<noteq> str ''logic''" "key_insight \<noteq> str ''insight''" "str ''core'' \<noteq> str ''text''" "str ''core'' \<noteq> key_core" "str ''core'' \<noteq> key_logic" "str ''core'' \<noteq> key_insight" "str ''core'' \<noteq> str ''logic''" "str ''core'' \<noteq> str ''insight''" "str ''logic'' \<noteq> str ''text''" "str ''logic'' \<noteq> key_core" "str ''logic'' \<noteq> key_logic" "str ''logic'' \<noteq> key_insight" "str ''logic'' \<noteq> str ''core''" "str ''logic'' \<noteq> str ''insight''" "str ''insight'' \<noteq> str ''text''" "str ''insight'' \<noteq> key_core" "str ''insight'' \<noteq> key_logic" "str ''insight'' \<noteq> key_insight" "str ''insight'' \<noteq> str ''core''" "str ''insight'' \<noteq> str ''logic''"
  by (simp_all add: key_defs)

lemma present_put: "k \<noteq> k' \<Longrightarrow> present (put_prop k w fs) k' = present fs k'"
  by (simp add: present_def map_of_put_prop)

lemma present_some: "map_of fs k = Some v \<Longrightarrow> \<not> is_nullish v \<Longrightarrow> present fs k = Some v"
  by (simp add: present_def)

lemma field_value_put_alias:
  "map_of fs native = Some v \<Longrightarrow> \<not> is_nullish v \<Longrightarrow> k \<noteq> native
     \<Longrightarrow> field_value (put_prop k w fs) native alias = field_value fs native alias"
  by (simp add: field_value_def present_put present_some)

lemma field_value_put_other:
  "k \<noteq> native \<Longrightarrow> k \<noteq> alias
     \<Longrightarrow> field_value (put_prop k w fs) native alias = field_value fs native alias"
  by (simp add: field_value_def present_put cong: option.case_cong)

lemma field_value_put_native:
  assumes "map_of fs native = None \<or> (\<exists>u. map_of fs native = Some u \<and> is_nullish u)"
    and "native \<noteq> alias"
  shows "field_value (put_prop native (own fs alias) fs) native alias
           = field_value fs native alias"
proof -
  have n: "present fs native = None" using assms(1) by (auto simp: present_def)
  have a: "present (put_prop native (own fs alias) fs) alias = present fs alias"
    using assms(2) by (rule present_put)
  have p: "present (put_prop native (own fs alias) fs) native = present fs alias"
    by (cases "map_of fs alias") (simp_all add: present_def map_of_put_prop own_def)
  show ?thesis unfolding field_value_def n a p by (simp split: option.splits)
qed

lemma text_put_other:
  "k \<noteq> str ''text'' \<Longrightarrow> map_of (put_prop k w fs) (str ''text'') = map_of fs (str ''text'')"
  by (simp add: map_of_put_prop)


section \<open>Facts about trimming and the code fence\<close>

lemma not_space_marks: "\<not> is_space 0x60" "\<not> is_space 0x7B" "\<not> is_space 0x7D"
  by (simp_all add: is_space_def)

lemma space_not_j: "is_space c \<Longrightarrow> to_lower c \<noteq> 0x6A"
  unfolding is_space_def to_lower_def
  by (auto simp: word_le_nat_alt)

lemma dropWhile_spaces:
  "\<forall>c\<in>set ws. is_space c \<Longrightarrow> dropWhile is_space (ws @ xs) = dropWhile is_space xs"
  by (simp add: dropWhile_append2)

lemma dropWhile_keep: "xs \<noteq> [] \<Longrightarrow> \<not> is_space (hd xs) \<Longrightarrow> dropWhile is_space xs = xs"
  by (cases xs) simp_all

lemma trim_end_spaces:
  assumes "\<forall>c\<in>set ws. is_space c"
  shows "trim_end (xs @ ws) = trim_end xs"
proof -
  have "dropWhile is_space (rev ws @ rev xs) = dropWhile is_space (rev xs)"
    by (rule dropWhile_append2) (use assms in simp)
  then show ?thesis by (simp add: trim_end_def)
qed

lemma trim_end_keep: "xs \<noteq> [] \<Longrightarrow> \<not> is_space (last xs) \<Longrightarrow> trim_end xs = xs"
  by (cases xs rule: rev_cases) (simp_all add: trim_end_def)

lemma js_trim_keep:
  "xs \<noteq> [] \<Longrightarrow> \<not> is_space (hd xs) \<Longrightarrow> \<not> is_space (last xs) \<Longrightarrow> js_trim xs = xs"
  by (simp add: js_trim_def dropWhile_keep trim_end_keep)

lemma json_tag_length: "map to_lower tag = str ''json'' \<Longrightarrow> length tag = 4"
proof -
  assume "map to_lower tag = str ''json''"
  then have "length (map to_lower tag) = length (str ''json'')" by simp
  then show ?thesis by (simp add: str_def)
qed

lemma no_tag_here:
  assumes "xs \<noteq> []" "to_lower (hd xs) \<noteq> 0x6A"
  shows "map to_lower (take 4 xs) \<noteq> str ''json''"
proof
  assume e: "map to_lower (take 4 xs) = str ''json''"
  from assms(1) obtain x xs' where x: "xs = x # xs'" by (cases xs) auto
  from e x have "to_lower x = 0x6A" by (simp add: str_def)
  with assms(2) x show False by simp
qed


section \<open>Facts about the structured response parser\<close>

lemma raw_of_string: "raw_of (JStr s) = Inr (js_trim s)"
  by (simp add: raw_of_def js_trim_def trim_end_def)

lemma parse_cases:
  "parseAIResponse N (JStr s) =
     (case try_block N (jsonStr_of (js_trim s)) of
        Inr (Some r) \<Rightarrow> Inr r
      | _ \<Rightarrow> Inr (fallback (js_trim s)))"
  by (simp add: parseAIResponse_def raw_of_string bind_exn_def catch_all_def
           split: sum.splits option.splits)

lemma js_get_field: "truthy obj \<Longrightarrow> js_get obj k = Inr (field obj k)"
  by (cases obj) (simp_all add: field_def own_def)

lemma read_fields_truthy:
  assumes "truthy obj"
  shows "read_fields obj =
     bind_exn (if isArray (field obj (str ''items'')) \<and> elems (field obj (str ''items'')) \<noteq> []
               then bind_exn (itemsToOutline (field obj (str ''items'')))
                      (\<lambda>rendered. Inr (field obj (str ''items''), rendered))
               else Inr (JNull, if typeof (field obj (str ''outline'')) = ''string''
                                then str_of (field obj (str ''outline'')) else []))
       (\<lambda>(items1, outline1).
     bind_exn (if \<not> is_nullish (field obj (str ''visualCode''))
               then bind_exn (js_String (field obj (str ''visualCode'')))
                      (\<lambda>s. Inr (if js_trim s \<noteq> [] then JStr (js_trim s) else JNull))
               else Inr JNull)
       (\<lambda>visual. Inr \<lparr> outline = outline1, opening = opening_of obj,
                        items = items1, visualCode = visual \<rparr>))"
  unfolding read_fields_def opening_of_def
  using assms by (simp add: js_get_field bind_exn_def)

lemma read_fields_falsy:
  "\<not> truthy obj \<Longrightarrow> read_fields obj = Inr \<lparr> outline = [], opening = [], items = JNull, visualCode = JNull \<rparr>"
  by (simp add: read_fields_def)

lemma read_fields_opening:
  "truthy obj \<Longrightarrow> read_fields obj = Inr r \<Longrightarrow> opening r = opening_of obj"
  by (auto simp: read_fields_truthy bind_exn_def split: sum.splits if_splits prod.splits)

lemma read_fields_nothing:
  assumes "yields_nothing obj" "read_fields obj = Inr r"
  shows "outline r = [] \<and> opening r = [] \<and> \<not> truthy (items r)"
proof (cases "truthy obj")
  case False
  with assms(2) show ?thesis by (auto simp: read_fields_falsy)
next
  case True
  have its: "\<not> (isArray (field obj (str ''items'')) \<and> elems (field obj (str ''items'')) \<noteq> [])"
    using assms(1) by (cases "field obj (str ''items'')") (simp_all add: yields_nothing_def)
  have ol: "(if typeof (field obj (str ''outline'')) = ''string''
             then str_of (field obj (str ''outline'')) else []) = []"
    using assms(1)
    by (cases "field obj (str ''outline'')") (simp_all add: yields_nothing_def string_field_def)
  have op: "opening_of obj = []"
    using assms(1)
    by (cases "field obj (str ''summary'')"; cases "field obj (str ''opening'')")
       (simp_all add: yields_nothing_def string_field_def opening_of_def)
  from assms(2) show ?thesis
    unfolding read_fields_truthy [OF True] using its ol op
    by (auto simp: bind_exn_def split: sum.splits if_splits)
qed


section \<open>Claims about the marker-based section splitter\<close>

text \<open>
  Claim C4. For every pair of strings \<open>O\<close> and \<open>L\<close> containing neither marker, the splitter
  gives the same sections for the text "opening marker, \<open>O\<close>, outline marker, \<open>L\<close>" and
  for the text "outline marker, \<open>L\<close>, opening marker, \<open>O\<close>": the opening is \<open>O\<close> trimmed
  and the outline is \<open>L\<close> trimmed.
\<close>

theorem marker_order_agnostic:
  assumes "\<not> sublist openMarker O'" "\<not> sublist outlineMarker O'"
    and "\<not> sublist openMarker L" "\<not> sublist outlineMarker L"
  shows "parseClaudeResponse (openMarker @ O' @ outlineMarker @ L)
           = \<lparr>outline = js_trim L, opening = js_trim O'\<rparr>
       \<and> parseClaudeResponse (outlineMarker @ L @ openMarker @ O')
           = \<lparr>outline = js_trim L, opening = js_trim O'\<rparr>"
proof
  let ?t = "openMarker @ O' @ outlineMarker @ L"
  have i1: "indexOf ?t openMarker = 0" by (rule indexOf_at_0)
  have i2: "indexOf ?t outlineMarker = int (5 + length O')"
    by (rule both_markers_first [OF _ open_no_outline _ _ assms(2)])
       (simp_all add: openMarker_def outlineMarker_def)
  have s1: "js_slice ?t 5 (5 + int (length O')) = O'"
    using js_slice_mid [of openMarker O' "outlineMarker @ L"] by (simp add: openMarker_def)
  have s2: "js_slice ?t (9 + int (length O')) (int (length ?t)) = L"
    using js_slice_tail [of "openMarker @ O' @ outlineMarker" L]
    by (simp add: openMarker_def outlineMarker_def)
  show "parseClaudeResponse ?t = \<lparr>outline = js_trim L, opening = js_trim O'\<rparr>"
    unfolding parseClaudeResponse_def Let_def i1 i2 sliceSection_def
    using s1 s2 by (simp add: openMarker_def outlineMarker_def)
next
  let ?t = "outlineMarker @ L @ openMarker @ O'"
  have i1: "indexOf ?t outlineMarker = 0" by (rule indexOf_at_0)
  have i2: "indexOf ?t openMarker = int (4 + length L)"
    by (rule both_markers_first [OF _ outline_no_open _ _ assms(3)])
       (simp_all add: openMarker_def outlineMarker_def)
  have s1: "js_slice ?t 4 (4 + int (length L)) = L"
    using js_slice_mid [of outlineMarker L "openMarker @ O'"] by (simp add: outlineMarker_def)
  have s2: "js_slice ?t (9 + int (length L)) (int (length ?t)) = O'"
    using js_slice_tail [of "outlineMarker @ L @ openMarker" O']
    by (simp add: openMarker_def outlineMarker_def)
  show "parseClaudeResponse ?t = \<lparr>outline = js_trim L, opening = js_trim O'\<rparr>"
    unfolding parseClaudeResponse_def Let_def i1 i2 sliceSection_def
    using s1 s2 by (simp add: openMarker_def outlineMarker_def)
qed

text \<open>The theorem at \<open>O = " hi "\<close> and \<open>L = "- a"\<close>.\<close>

theorem marker_order_agnostic_witness:
  "parseClaudeResponse (openMarker @ str '' hi '' @ outlineMarker @ str ''- a'')
           = \<lparr>outline = str ''- a'', opening = str ''hi''\<rparr>
       \<and> parseClaudeResponse (outlineMarker @ str ''- a'' @ openMarker @ str '' hi '')
           = \<lparr>outline = str ''- a'', opening = str ''hi''\<rparr>"
proof -
  have h: "\<not> sublist openMarker (str '' hi '')" "\<not> sublist outlineMarker (str '' hi '')"
      "\<not> sublist openMarker (str ''- a'')" "\<not> sublist outlineMarker (str ''- a'')"
    by (simp_all add: indexOf_none_iff [symmetric] split_defs)
  have t: "js_trim (str '' hi '') = str ''hi''" "js_trim (str ''- a'') = str ''- a''"
    by (simp_all add: split_defs)
  show ?thesis using marker_order_agnostic [OF h] unfolding t .
qed


text \<open>
  Claim C5. For a text in which only the opening marker occurs and whose leading segment
  holds a line that starts with a list bullet, the outline is to start at that bullet line.
  The code does not do so: it cuts the leading segment after the cue "newline, dash, space"
  and not before the dash. On the text "noise, newline, - bullet one, newline, opening
  marker, Hello" the outline is \<open>bullet one\<close>; with two bullets after \<open>noise\<close> the first
  loses its dash and the second keeps it; and when the segment starts with the first bullet,
  the cue found is the one before the second bullet, and the first item is lost.
\<close>

theorem bullet_cue_loses_dash:
  "outline (parseClaudeResponse
       (str ''noise'' @ [0x0A] @ str ''- bullet one'' @ [0x0A] @ openMarker @ str ''Hello''))
     = str ''bullet one''
   \<and> \<not> prefix (str ''- bullet one'') (outline (parseClaudeResponse
       (str ''noise'' @ [0x0A] @ str ''- bullet one'' @ [0x0A] @ openMarker @ str ''Hello'')))
   \<and> outline (parseClaudeResponse
       (str ''noise'' @ [0x0A] @ str ''- one'' @ [0x0A] @ str ''- two'' @ [0x0A]
          @ openMarker @ str ''Hi''))
     = str ''one'' @ [0x0A] @ str ''- two''
   \<and> outline (parseClaudeResponse
       (str ''- one'' @ [0x0A] @ str ''- two'' @ [0x0A] @ openMarker @ str ''Hi''))
     = str ''two''"
  by (simp add: split_defs)


text \<open>
  Claim C9. For every trimmed text containing neither marker, the opening is the whole text
  and the outline is the trimmed first half of the text, the half being the length in code
  units divided by two and rounded down.
\<close>

theorem no_marker_split:
  assumes "js_trim text = text"
    and "\<not> sublist openMarker text" "\<not> sublist outlineMarker text"
  shows "parseClaudeResponse text
           = \<lparr>outline = js_trim (take (length text div 2) text), opening = text\<rparr>"
proof -
  have "indexOf text openMarker = - 1" "indexOf text outlineMarker = - 1"
    using assms(2,3) by (simp_all add: indexOf_none)
  moreover have "js_slice text 0 (int (length text) div 2) = take (length text div 2) text"
    using js_slice_take [of "text" "length text div 2"] by (simp add: zdiv_int)
  ultimately show ?thesis
    using assms(1) by (simp add: parseClaudeResponse_def)
qed

text \<open>The theorem on the ten characters \<open>0123456789\<close>: the outline is \<open>01234\<close>.\<close>

theorem no_marker_split_witness:
  "parseClaudeResponse (str ''0123456789'')
     = \<lparr>outline = str ''01234'', opening = str ''0123456789''\<rparr>"
proof -
  have h1: "js_trim (str ''0123456789'') = str ''0123456789''" by (simp add: split_defs)
  have h2: "\<not> sublist openMarker (str ''0123456789'')"
    by (simp add: indexOf_none_iff [symmetric] split_defs)
  have h3: "\<not> sublist outlineMarker (str ''0123456789'')"
    by (simp add: indexOf_none_iff [symmetric] split_defs)
  have t: "js_trim (take (length (str ''0123456789'') div 2) (str ''0123456789'')) = str ''01234''"
    by (simp add: split_defs)
  show ?thesis using no_marker_split [OF h1 h2 h3] unfolding t .
qed


section \<open>Claims about the outline renderer and the item normalizer\<close>

text \<open>
  Claim C7, as stated, fails. The renderer takes the \<open>text\<close> property of an object whenever
  it is neither \<open>null\<close> nor \<open>undefined\<close>, string or not, and coerces it to a string: the
  array holding the object with \<open>text\<close> equal to \<open>true\<close> renders to \<open>- true\<close>, where the
  claim has the coercion of the object itself, \<open>- [object Object]\<close>.
\<close>

theorem text_field_counterexample:
  "itemsToOutline (JArr [JObj [(str ''text'', JBool True)]]) = Inr (str ''- true'')
   \<and> js_String (JObj [(str ''text'', JBool True)]) = Inr (str ''[object Object]'')
   \<and> str ''- true'' \<noteq> str ''- [object Object]''"
  by code_simp

text \<open>
  Claim C7, amended. For every input value, the renderer returns the empty string when the
  input is not an array or is an empty array. Otherwise it takes, for each element in
  order, the element itself if it is a string, the element's \<open>text\<close> property coerced to a
  string if the element is an object whose \<open>text\<close> property is neither \<open>null\<close> nor
  \<open>undefined\<close>, and the element's own coercion to a string otherwise; it trims each of
  these texts, puts \<open>- \<close> before it and joins the lines with newlines. A coercion that
  throws makes the renderer throw.
\<close>

theorem outline_rendering:
  "itemsToOutline v =
     (case v of
        JArr (x # xs) \<Rightarrow>
          (case sequence_exn (map element_text (x # xs)) of
             Inl e \<Rightarrow> Inl e
           | Inr ts \<Rightarrow> Inr (js_join [0x0A] (map (\<lambda>t. str ''- '' @ js_trim t) ts)))
      | _ \<Rightarrow> Inr [])"
proof (cases v)
  case (JArr ys)
  show ?thesis
  proof (cases ys)
    case Nil
    with JArr show ?thesis by (simp add: itemsToOutline_def)
  next
    case (Cons x xs)
    have "sequence_exn (map item_line ys)
            = (case sequence_exn (map element_text ys) of
                 Inl e \<Rightarrow> Inl e
               | Inr ts \<Rightarrow> Inr (map (\<lambda>t. str ''- '' @ js_trim t) ts))"
      unfolding item_line_eq [abs_def] by (rule sequence_exn_map)
    with JArr Cons show ?thesis
      by (simp add: itemsToOutline_def bind_exn_def split: sum.splits)
  qed
qed (simp_all add: itemsToOutline_def)

text \<open>The theorem on the array of the string \<open>a\<close> and the object with \<open>text\<close> equal to
  \<open>b\<close>, on the empty array and on a string.\<close>

theorem outline_rendering_witness:
  "itemsToOutline (JArr [JStr (str ''a''), JObj [(str ''text'', JStr (str ''b''))]])
     = Inr (str ''- a'' @ [0x0A] @ str ''- b'')
   \<and> itemsToOutline (JArr []) = Inr []
   \<and> itemsToOutline (JStr (str ''a'')) = Inr []"
proof -
  have e: "sequence_exn (map element_text [JStr (str ''a''), JObj [(str ''text'', JStr (str ''b''))]])
             = Inr [str ''a'', str ''b'']"
    by (simp add: str_def)
  have j: "js_join [0x0A] (map (\<lambda>t. str ''- '' @ js_trim t) [str ''a'', str ''b''])
             = str ''- a'' @ [0x0A] @ str ''- b''"
    by (simp add: str_def js_trim_def trim_end_def is_space_def)
  have "itemsToOutline (JArr [JStr (str ''a''), JObj [(str ''text'', JStr (str ''b''))]])
     = Inr (str ''- a'' @ [0x0A] @ str ''- b'')"
    using outline_rendering [of "JArr [JStr (str ''a''), JObj [(str ''text'', JStr (str ''b''))]]"]
    unfolding jsvalue.case list.case e sum.case j .
  moreover have "itemsToOutline (JArr []) = Inr []"
    using outline_rendering [of "JArr []"] by simp
  moreover have "itemsToOutline (JStr (str ''a'')) = Inr []"
    using outline_rendering [of "JStr (str ''a'')"] by simp
  ultimately show ?thesis by simp
qed


text \<open>
  Claim C6, as stated, fails. A field is left out when its value is falsy in the host
  language, and the test comes before the coercion and the trimming. A core quote that is
  a blank string, or an empty array, is kept and contributes an empty first line before the
  logical breakdown \<open>B\<close>; an interaction suggestion that is the number zero is left out;
  and a field whose value cannot be coerced to a string makes the normalizer throw.
\<close>

theorem blank_line_counterexample:
  "normalizeItemForFrontend (JObj [(key_core, JStr (str '' '')), (key_logic, JStr (str ''B''))])
     = Inr (text_obj ([0x0A] @ str ''B''))
   \<and> normalizeItemForFrontend
       (JObj [(str ''core'', JArr []), (str ''logic'', JStr (str ''B'')), (str ''insight'', JNum (str ''0''))])
     = Inr (text_obj ([0x0A] @ str ''B''))
   \<and> normalizeItemForFrontend (JObj [(str ''insight'', JObj [(str ''toString'', JNull)])])
     = Inl TypeError"
  by code_simp

text \<open>
  Claim C6, amended. For every object without a string \<open>text\<close> property, the normalizer
  returns the object whose \<open>text\<close> is made of the values of core quote, logical breakdown
  and interaction suggestion (each read from its native-language key, or from its English
  alias when that key is absent, \<open>null\<close> or \<open>undefined\<close>): the values that are falsy in
  the host language are left out, the others are coerced to strings and trimmed, in that
  order, and joined by single newlines; where a coercion throws, the normalizer throws. In
  particular, when the three values are strings, the text is made of the non-empty ones,
  trimmed; a string of white space only is not empty and leaves an empty line.
\<close>

theorem domain_record_text:
  assumes "\<forall>t. map_of fs (str ''text'') \<noteq> Some (JStr t)"
  shows "normalizeItemForFrontend (JObj fs)
           = (case domain_text fs of Inl e \<Rightarrow> Inl e | Inr t \<Rightarrow> Inr (text_obj t))
       \<and> (field_value fs key_core (str ''core'') = JStr c
            \<and> field_value fs key_logic (str ''logic'') = JStr l
            \<and> field_value fs key_insight (str ''insight'') = JStr i
          \<longrightarrow> normalizeItemForFrontend (JObj fs)
                = Inr (text_obj (js_join [0x0A] (map js_trim (filter (\<lambda>x. x \<noteq> []) [c, l, i])))))"
proof (intro conjI impI)
  obtain t where t: "js_get (JObj fs) (str ''text'') = Inr t" by simp
  have nt: "\<not> (\<not> is_nullish t \<and> typeof t = ''string'')"
  proof (cases "map_of fs (str ''text'')")
    case None
    with t show ?thesis by auto
  next
    case (Some u)
    with assms have "\<forall>s. u \<noteq> JStr s" by auto
    moreover from Some t have "t = u" by simp
    ultimately show ?thesis by (cases u) auto
  qed
  have "normalizeItemForFrontend (JObj fs)
          = bind_exn (push_part (field_value fs key_core (str ''core'')) []) (\<lambda>p1.
            bind_exn (push_part (field_value fs key_logic (str ''logic'')) p1) (\<lambda>p2.
            bind_exn (push_part (field_value fs key_insight (str ''insight'')) p2) (\<lambda>parts.
              Inr (text_obj (js_join [0x0A] parts)))))"
    unfolding normalizeItemForFrontend_def read_field_obj t
    using nt by (cases "is_nullish t") (simp_all add: bind_exn_def)
  also have "\<dots> = (case domain_text fs of Inl e \<Rightarrow> Inl e | Inr t \<Rightarrow> Inr (text_obj t))"
    unfolding push3 domain_text_def by (simp split: sum.splits)
  finally show g: "normalizeItemForFrontend (JObj fs)
           = (case domain_text fs of Inl e \<Rightarrow> Inl e | Inr t \<Rightarrow> Inr (text_obj t))" .
  assume a: "field_value fs key_core (str ''core'') = JStr c
            \<and> field_value fs key_logic (str ''logic'') = JStr l
            \<and> field_value fs key_insight (str ''insight'') = JStr i"
  have "domain_text fs = Inr (js_join [0x0A] (map js_trim (filter (\<lambda>x. x \<noteq> []) [c, l, i])))"
    using a by (simp add: domain_text_def)
  with g show "normalizeItemForFrontend (JObj fs)
                = Inr (text_obj (js_join [0x0A] (map js_trim (filter (\<lambda>x. x \<noteq> []) [c, l, i]))))"
    by simp
qed

text \<open>The theorem on the record with core quote \<open>A\<close> and logical breakdown \<open>B\<close>.\<close>

theorem domain_record_text_witness:
  "normalizeItemForFrontend (JObj [(key_core, JStr (str ''A'')), (key_logic, JStr (str ''B''))])
     = Inr (text_obj (str ''A'' @ [0x0A] @ str ''B''))"
proof -
  have h: "\<forall>t. map_of [(key_core, JStr (str ''A'')), (key_logic, JStr (str ''B''))] (str ''text'')
              \<noteq> Some (JStr t)"
    by (simp add: key_defs)
  have d: "domain_text [(key_core, JStr (str ''A'')), (key_logic, JStr (str ''B''))]
             = Inr (str ''A'' @ [0x0A] @ str ''B'')"
    by code_simp
  show ?thesis using domain_record_text [OF h, THEN conjunct1] unfolding d by simp
qed


text \<open>
  Claim C10. For each of the three fields of a domain record, when the value of the
  native-language key is neither \<open>null\<close> nor \<open>undefined\<close>, the English alias is ignored:
  giving the alias any value \<open>w\<close> does not change the result. When the native-language key
  is absent, \<open>null\<close> or \<open>undefined\<close>, the alias is read in its place: the result is the one
  for the record in which the native-language key has the value of the alias.
\<close>

theorem native_key_precedence:
  assumes "(native, alias) \<in> {(key_core, str ''core''), (key_logic, str ''logic''),
                                (key_insight, str ''insight'')}"
  shows "(map_of fs native = Some v \<and> \<not> is_nullish v \<longrightarrow>
            normalizeItemForFrontend (JObj (put_prop alias w fs))
              = normalizeItemForFrontend (JObj fs))
       \<and> (map_of fs native = None \<or> (\<exists>u. map_of fs native = Some u \<and> is_nullish u) \<longrightarrow>
            normalizeItemForFrontend (JObj fs)
              = normalizeItemForFrontend (JObj (put_prop native (own fs alias) fs)))"
proof -
  from assms consider
      (core) "native = key_core" "alias = str ''core''"
    | (logic) "native = key_logic" "alias = str ''logic''"
    | (insight) "native = key_insight" "alias = str ''insight''"
    by auto
  then show ?thesis
  proof cases
    case core
    show ?thesis
    proof (intro conjI impI)
      assume a: "map_of fs native = Some v \<and> \<not> is_nullish v"
      show "normalizeItemForFrontend (JObj (put_prop alias w fs))
              = normalizeItemForFrontend (JObj fs)"
        using a unfolding core
        by (intro normalize_cong)
           (simp_all add: key_neq text_put_other field_value_put_other field_value_put_alias)
    next
      assume a: "map_of fs native = None \<or> (\<exists>u. map_of fs native = Some u \<and> is_nullish u)"
      show "normalizeItemForFrontend (JObj fs)
              = normalizeItemForFrontend (JObj (put_prop native (own fs alias) fs))"
        using a unfolding core
        by (intro normalize_cong)
           (simp_all add: key_neq text_put_other field_value_put_other field_value_put_native)
    qed
  next
    case logic
    show ?thesis
    proof (intro conjI impI)
      assume a: "map_of fs native = Some v \<and> \<not> is_nullish v"
      show "normalizeItemForFrontend (JObj (put_prop alias w fs))
              = normalizeItemForFrontend (JObj fs)"
        using a unfolding logic
        by (intro normalize_cong)
           (simp_all add: key_neq text_put_other field_value_put_other field_value_put_alias)
    next
      assume a: "map_of fs native = None \<or> (\<exists>u. map_of fs native = Some u \<and> is_nullish u)"
      show "normalizeItemForFrontend (JObj fs)
              = normalizeItemForFrontend (JObj (put_prop native (own fs alias) fs))"
        using a unfolding logic
        by (intro normalize_cong)
           (simp_all add: key_neq text_put_other field_value_put_other field_value_put_native)
    qed
  next
    case insight
    show ?thesis
    proof (intro conjI impI)
      assume a: "map_of fs native = Some v \<and> \<not> is_nullish v"
      show "normalizeItemForFrontend (JObj (put_prop alias w fs))
              = normalizeItemForFrontend (JObj fs)"
        using a unfolding insight
        by (intro normalize_cong)
           (simp_all add: key_neq text_put_other field_value_put_other field_value_put_alias)
    next
      assume a: "map_of fs native = None \<or> (\<exists>u. map_of fs native = Some u \<and> is_nullish u)"
      show "normalizeItemForFrontend (JObj fs)
              = normalizeItemForFrontend (JObj (put_prop native (own fs alias) fs))"
        using a unfolding insight
        by (intro normalize_cong)
           (simp_all add: key_neq text_put_other field_value_put_other field_value_put_native)
    qed
  qed
qed

text \<open>The theorem on the core quote: with \<open>A\<close> under the native-language key and \<open>B\<close>
  under \<open>core\<close> the text is \<open>A\<close>; with \<open>null\<close> under the native-language key it is \<open>B\<close>.\<close>

theorem native_key_precedence_witness:
  "normalizeItemForFrontend (JObj [(key_core, JStr (str ''A'')), (str ''core'', JStr (str ''B''))])
     = Inr (text_obj (str ''A''))
   \<and> normalizeItemForFrontend (JObj [(key_core, JNull), (str ''core'', JStr (str ''B''))])
     = Inr (text_obj (str ''B''))"
proof -
  have m: "(key_core, str ''core'') \<in> {(key_core, str ''core''), (key_logic, str ''logic''),
                                (key_insight, str ''insight'')}" by simp
  have p1: "put_prop (str ''core'') (JStr (str ''B'')) [(key_core, JStr (str ''A''))]
              = [(key_core, JStr (str ''A'')), (str ''core'', JStr (str ''B''))]"
    by (simp add: key_defs)
  have a: "normalizeItemForFrontend (JObj [(key_core, JStr (str ''A''))]) = Inr (text_obj (str ''A''))"
    by code_simp
  have h1: "map_of [(key_core, JStr (str ''A''))] key_core = Some (JStr (str ''A''))
            \<and> \<not> is_nullish (JStr (str ''A''))" by simp
  have p2: "put_prop key_core (own [(key_core, JNull), (str ''core'', JStr (str ''B''))] (str ''core''))
               [(key_core, JNull), (str ''core'', JStr (str ''B''))]
              = [(key_core, JStr (str ''B'')), (str ''core'', JStr (str ''B''))]"
    by (simp add: key_defs own_def)
  have b: "normalizeItemForFrontend (JObj [(key_core, JStr (str ''B'')), (str ''core'', JStr (str ''B''))])
             = Inr (text_obj (str ''B''))"
    by code_simp
  have h2: "map_of [(key_core, JNull), (str ''core'', JStr (str ''B''))] key_core = None
            \<or> (\<exists>u. map_of [(key_core, JNull), (str ''core'', JStr (str ''B''))] key_core = Some u
                   \<and> is_nullish u)" by simp
  from native_key_precedence [OF m, of "[(key_core, JStr (str ''A''))]" "JStr (str ''A'')"
        "JStr (str ''B'')"] h1
  have "normalizeItemForFrontend (JObj (put_prop (str ''core'') (JStr (str ''B''))
            [(key_core, JStr (str ''A''))]))
          = normalizeItemForFrontend (JObj [(key_core, JStr (str ''A''))])" by blast
  then have c1: "normalizeItemForFrontend
                   (JObj [(key_core, JStr (str ''A'')), (str ''core'', JStr (str ''B''))])
                 = Inr (text_obj (str ''A''))"
    unfolding p1 a .
  from native_key_precedence [OF m, of "[(key_core, JNull), (str ''core'', JStr (str ''B''))]"] h2
  have "normalizeItemForFrontend (JObj [(key_core, JNull), (str ''core'', JStr (str ''B''))])
          = normalizeItemForFrontend (JObj (put_prop key_core
              (own [(key_core, JNull), (str ''core'', JStr (str ''B''))] (str ''core''))
              [(key_core, JNull), (str ''core'', JStr (str ''B''))]))" by blast
  then have c2: "normalizeItemForFrontend (JObj [(key_core, JNull), (str ''core'', JStr (str ''B''))])
                 = Inr (text_obj (str ''B''))"
    unfolding p2 b .
  from c1 c2 show ?thesis by simp
qed


section \<open>Claims about the structured response parser\<close>

text \<open>In the closed theorems of this section the reading of numeric literals is \<open>id\<close>;
  none of their inputs holds a number, and the reading plays no part.\<close>

text \<open>
  Claim C8, as stated, fails for a language tag other than \<open>json\<close>: the pattern removes
  the fence and leaves the tag, and the decoding fails. The input is the object text
  with \<open>opening\<close> equal to \<open>x\<close> in a fence tagged \<open>js\<close>.
\<close>

theorem other_tag_counterexample:
  \<open>JSON_parse id
     (jsonStr_of (js_trim (fence @ str ''js'' @ [0x0A] @ str ''{"opening":"x"}'' @ [0x0A] @ fence)))
     = Inl SyntaxError
   \<and> JSON_parse id (jsonStr_of (js_trim (str ''{"opening":"x"}'')))
     = Inr (JObj [(str ''opening'', JStr (str ''x''))])\<close>
  by code_simp

text \<open>
  Claim C8, amended. For every text that starts with \<open>{\<close> and ends with \<open>}\<close>, wrapped in
  a leading and a trailing fence of three backticks, the leading one followed or not by the
  tag \<open>json\<close> in any mix of upper and lower case, with any white space around the fences
  and the text: the parser passes the bare text to the decoder, as it does for the unfenced
  text, so both are decoded alike.
\<close>

theorem fenced_json_decoding:
  assumes "\<forall>c\<in>set ws0. is_space c" "\<forall>c\<in>set ws1. is_space c"
    and "\<forall>c\<in>set ws2. is_space c" "\<forall>c\<in>set ws3. is_space c"
    and "tag = [] \<or> map to_lower tag = str ''json''"
    and "J \<noteq> []" "hd J = 0x7B" "last J = 0x7D"
  shows "jsonStr_of (js_trim (ws0 @ fence @ tag @ ws1 @ J @ ws2 @ fence @ ws3)) = J
       \<and> jsonStr_of (js_trim J) = J
       \<and> JSON_parse N (jsonStr_of (js_trim (ws0 @ fence @ tag @ ws1 @ J @ ws2 @ fence @ ws3)))
           = JSON_parse N (jsonStr_of (js_trim J))"
proof -
  let ?body = "tag @ ws1 @ J @ ws2 @ fence"
  let ?raw = "fence @ ?body"
  have Jh: "\<not> is_space (hd J)" and Jl: "\<not> is_space (last J)"
    using assms(7,8) by (simp_all add: not_space_marks)
  have "dropWhile is_space (ws0 @ ?raw @ ws3) = ?raw @ ws3"
    using assms(1) by (simp add: dropWhile_spaces fence_def not_space_marks)
  moreover have "trim_end (?raw @ ws3) = ?raw"
  proof -
    have "trim_end (?raw @ ws3) = trim_end ?raw" using assms(4) by (rule trim_end_spaces)
    also have "\<dots> = ?raw"
      by (rule trim_end_keep) (simp_all add: fence_def not_space_marks)
    finally show ?thesis .
  qed
  ultimately have raw: "js_trim (ws0 @ fence @ tag @ ws1 @ J @ ws2 @ fence @ ws3) = ?raw"
    by (simp add: js_trim_def)
  have rest: "dropWhile is_space (ws1 @ J @ ws2 @ fence) = J @ ws2 @ fence"
  proof -
    have "dropWhile is_space (ws1 @ J @ ws2 @ fence) = dropWhile is_space (J @ ws2 @ fence)"
      using assms(2) by (rule dropWhile_spaces)
    also have "\<dots> = J @ ws2 @ fence"
      using assms(6) Jh by (intro dropWhile_keep) simp_all
    finally show ?thesis .
  qed
  have opened: "strip_open_fence ?raw = J @ ws2 @ fence"
  proof (cases "tag = []")
    case True
    have ne: "ws1 @ J @ ws2 @ fence \<noteq> []" using assms(6) by simp
    have "to_lower (hd (ws1 @ J @ ws2 @ fence)) \<noteq> 0x6A"
    proof (cases ws1)
      case Nil
      with assms(6,7) show ?thesis by (simp add: to_lower_def)
    next
      case (Cons c cs)
      with assms(2) have "is_space c" by simp
      with Cons show ?thesis by (simp add: space_not_j)
    qed
    with ne have "map to_lower (take 4 (ws1 @ J @ ws2 @ fence)) \<noteq> str ''json''"
      by (rule no_tag_here)
    with True rest show ?thesis
      by (simp add: strip_open_fence_def fence_def)
  next
    case False
    with assms(5) have t: "map to_lower tag = str ''json''" by simp
    then have l: "length tag = 4" by (rule json_tag_length)
    have "drop 3 ?raw = ?body" by (simp add: fence_def)
    moreover have "take 4 ?body = tag" "drop 4 ?body = ws1 @ J @ ws2 @ fence"
      using l by simp_all
    ultimately show ?thesis
      using t rest unfolding strip_open_fence_def Let_def by (simp add: fence_def)
  qed
  have closed: "strip_close_fence (J @ ws2 @ fence) = J"
  proof -
    have "suffix fence (J @ ws2 @ fence)" by (simp add: suffix_def)
    moreover have "take (length (J @ ws2 @ fence) - 3) (J @ ws2 @ fence) = J @ ws2"
      by (simp add: fence_def)
    moreover have "trim_end (J @ ws2) = J"
      using trim_end_spaces [OF assms(3), of J] trim_end_keep [OF assms(6) Jl] by simp
    ultimately show ?thesis by (simp add: strip_close_fence_def)
  qed
  have J: "js_trim J = J" using assms(6) Jh Jl by (rule js_trim_keep)
  have fenced: "jsonStr_of ?raw = J"
    unfolding jsonStr_of_def opened closed J ..
  have "\<not> prefix fence J" using assms(6,7) by (cases J) (simp_all add: fence_def)
  moreover have "\<not> suffix fence J"
  proof
    assume "suffix fence J"
    then obtain p where "J = p @ fence" by (auto simp: suffix_def)
    then have "last J = 0x60" by (simp add: fence_def)
    with assms(8) show False by simp
  qed
  ultimately have plain: "jsonStr_of J = J"
    by (simp add: jsonStr_of_def strip_open_fence_def strip_close_fence_def J)
  show ?thesis unfolding raw J fenced plain by simp
qed

text \<open>The theorem on the object text with \<open>opening\<close> equal to \<open>x\<close>, in a fence tagged
  \<open>JSON\<close> with a newline on each side.\<close>

theorem fenced_json_decoding_witness:
  \<open>jsonStr_of (js_trim (fence @ str ''JSON'' @ [0x0A] @ str ''{"opening":"x"}'' @ [0x0A] @ fence))
     = str ''{"opening":"x"}''
   \<and> jsonStr_of (js_trim (str ''{"opening":"x"}'')) = str ''{"opening":"x"}''
   \<and> JSON_parse id
        (jsonStr_of (js_trim (fence @ str ''JSON'' @ [0x0A] @ str ''{"opening":"x"}'' @ [0x0A] @ fence)))
       = JSON_parse id (jsonStr_of (js_trim (str ''{"opening":"x"}'')))\<close>
proof -
  have e: "\<forall>c\<in>set ([]::jsstring). is_space c" by simp
  have n: "\<forall>c\<in>set [0x0A]. is_space c" by (simp add: is_space_def)
  have t: "str ''JSON'' = [] \<or> map to_lower (str ''JSON'') = str ''json''"
    by (simp add: to_lower_def str_def)
  have j: \<open>str ''{"opening":"x"}'' \<noteq> []\<close> \<open>hd (str ''{"opening":"x"}'') = 0x7B\<close>
      \<open>last (str ''{"opening":"x"}'') = 0x7D\<close>
    by (simp_all add: str_def)
  show ?thesis
    using fenced_json_decoding [OF e n n e t j, of id] by simp
qed


text \<open>
  Claim C1, as stated, fails. The input decodes to an object whose \<open>items\<close> are the array
  of the string \<open>a\<close>, which renders to \<open>- a\<close>, and whose \<open>visualCode\<close> is an object with
  an own property \<open>toString\<close>. Coercing \<open>visualCode\<close> to a string throws inside the \<open>try\<close>
  block, the \<open>catch\<close> clause swallows the exception, and the result is the marker
  splitter's: the outline is the first half of the raw text.
\<close>

theorem visualCode_raise_counterexample:
  \<open>JSON_parse id (jsonStr_of (js_trim (str ''{"items":["a"],"visualCode":{"toString":"x"}}'')))
     = Inr (JObj [(str ''items'', JArr [JStr (str ''a'')]),
                  (str ''visualCode'', JObj [(str ''toString'', JStr (str ''x''))])])
   \<and> itemsToOutline (JArr [JStr (str ''a'')]) = Inr (str ''- a'')
   \<and> parseAIResponse id (JStr (str ''{"items":["a"],"visualCode":{"toString":"x"}}''))
       = Inr \<lparr> outline = str ''{"items":["a"],"visual'',
                opening = str ''{"items":["a"],"visualCode":{"toString":"x"}}'',
                items = JNull, visualCode = JNull \<rparr>
   \<and> str ''{"items":["a"],"visual'' \<noteq> str ''- a''\<close>
  by code_simp

text \<open>
  Claim C1, amended. For every input string that, trimmed and stripped of its fence, decodes
  to an object whose \<open>items\<close> are a non-empty array, if the renderer returns on that array
  and the coercion of \<open>visualCode\<close> to a string does not throw, the parser returns the
  renderer's result as the outline, and the array as the items, whatever \<open>outline\<close> the
  object holds.
\<close>

theorem items_take_precedence:
  assumes "JSON_parse N (jsonStr_of (js_trim s)) = Inr (JObj fs)"
    and "map_of fs (str ''items'') = Some (JArr xs)" "xs \<noteq> []"
    and "itemsToOutline (JArr xs) = Inr ol"
    and "js_String (own fs (str ''visualCode'')) = Inr vs"
  shows "\<exists>r. parseAIResponse N (JStr s) = Inr r \<and> outline r = ol \<and> items r = JArr xs"
proof -
  have f: "field (JObj fs) (str ''items'') = JArr xs"
    using assms(2) by (simp add: field_def own_def)
  have v: "field (JObj fs) (str ''visualCode'') = own fs (str ''visualCode'')"
    by (simp add: field_def)
  define vis where "vis = (if is_nullish (own fs (str ''visualCode'')) then JNull
                           else if js_trim vs \<noteq> [] then JStr (js_trim vs) else JNull)"
  have "read_fields (JObj fs)
      = Inr \<lparr> outline = ol, opening = opening_of (JObj fs), items = JArr xs, visualCode = vis \<rparr>"
    using assms(3,4,5) by (simp add: read_fields_truthy f v bind_exn_def vis_def)
  with assms(1) have "try_block N (jsonStr_of (js_trim s))
      = Inr (Some \<lparr> outline = ol, opening = opening_of (JObj fs), items = JArr xs, visualCode = vis \<rparr>)"
    by (simp add: try_block_def bind_exn_def)
  then show ?thesis unfolding parse_cases by simp
qed

text \<open>The theorem on the object with \<open>items\<close> the array of \<open>a\<close> and \<open>outline\<close> equal to
  \<open>zzz\<close>: the outline returned is \<open>- a\<close>.\<close>

theorem items_take_precedence_witness:
  \<open>\<exists>r. parseAIResponse id (JStr (str ''{"items":["a"],"outline":"zzz"}'')) = Inr r
        \<and> outline r = str ''- a'' \<and> items r = JArr [JStr (str ''a'')]\<close>
proof -
  have h1: \<open>JSON_parse id (jsonStr_of (js_trim (str ''{"items":["a"],"outline":"zzz"}'')))
              = Inr (JObj [(str ''items'', JArr [JStr (str ''a'')]),
                           (str ''outline'', JStr (str ''zzz''))])\<close>
    by code_simp
  have h2: "map_of [(str ''items'', JArr [JStr (str ''a'')]), (str ''outline'', JStr (str ''zzz''))]
              (str ''items'') = Some (JArr [JStr (str ''a'')])"
    by simp
  have h3: "[JStr (str ''a'')] \<noteq> []" by simp
  have h4: "itemsToOutline (JArr [JStr (str ''a'')]) = Inr (str ''- a'')" by code_simp
  have h5: "js_String (own [(str ''items'', JArr [JStr (str ''a'')]),
                            (str ''outline'', JStr (str ''zzz''))] (str ''visualCode''))
              = Inr (str ''undefined'')"
    by code_simp
  show ?thesis by (rule items_take_precedence [OF h1 h2 h3 h4 h5])
qed


text \<open>
  Claim C2, as stated, fails: on a text that is not JSON the parser returns the marker
  splitter's sections with \<open>items\<close> equal to \<open>null\<close>, not \<open>undefined\<close>.
\<close>

theorem items_null_counterexample:
  "JSON_parse id (jsonStr_of (js_trim (str ''not json''))) = Inl SyntaxError
   \<and> parseAIResponse id (JStr (str ''not json''))
       = Inr \<lparr> outline = str ''not'', opening = str ''not json'',
                items = JNull, visualCode = JNull \<rparr>
   \<and> JNull \<noteq> JUndefined"
  by code_simp

text \<open>
  Claim C2, amended. For every input string the parser returns and does not throw. Whenever
  the decoding fails, or the decoded value yields nothing (no non-empty \<open>outline\<close> string, no
  non-empty \<open>items\<close> array, and an empty opening), it returns the marker splitter's outline
  and opening for the original trimmed text, not the one stripped of its fence, with
  \<open>items\<close> and \<open>visualCode\<close> both \<open>null\<close>.
\<close>

theorem fallback_on_failure:
  "(\<exists>r. parseAIResponse N (JStr s) = Inr r)
   \<and> ((\<exists>e. JSON_parse N (jsonStr_of (js_trim s)) = Inl e)
        \<or> (\<exists>obj. JSON_parse N (jsonStr_of (js_trim s)) = Inr obj \<and> yields_nothing obj)
      \<longrightarrow> parseAIResponse N (JStr s)
            = Inr \<lparr> outline = outline (parseClaudeResponse (js_trim s)),
                    opening = opening (parseClaudeResponse (js_trim s)),
                    items = JNull, visualCode = JNull \<rparr>)"
proof (intro conjI impI)
  show "\<exists>r. parseAIResponse N (JStr s) = Inr r"
    unfolding parse_cases by (simp split: sum.splits option.splits)
next
  assume a: "(\<exists>e. JSON_parse N (jsonStr_of (js_trim s)) = Inl e)
        \<or> (\<exists>obj. JSON_parse N (jsonStr_of (js_trim s)) = Inr obj \<and> yields_nothing obj)"
  have "\<forall>r. try_block N (jsonStr_of (js_trim s)) \<noteq> Inr (Some r)"
  proof (intro allI notI)
    fix r assume t: "try_block N (jsonStr_of (js_trim s)) = Inr (Some r)"
    from a show False
    proof
      assume "\<exists>e. JSON_parse N (jsonStr_of (js_trim s)) = Inl e"
      with t show False by (auto simp: try_block_def bind_exn_def)
    next
      assume "\<exists>obj. JSON_parse N (jsonStr_of (js_trim s)) = Inr obj \<and> yields_nothing obj"
      then obtain obj where o: "JSON_parse N (jsonStr_of (js_trim s)) = Inr obj" "yields_nothing obj"
        by blast
      from t o(1) obtain r' where r': "read_fields obj = Inr r'"
        "(if outline r' \<noteq> [] \<or> opening r' \<noteq> [] \<or> truthy (items r') then Some r' else None) = Some r"
        by (auto simp: try_block_def bind_exn_def split: sum.splits)
      from read_fields_nothing [OF o(2) r'(1)] r'(2) show False by simp
    qed
  qed
  then have "parseAIResponse N (JStr s) = Inr (fallback (js_trim s))"
    unfolding parse_cases by (auto split: sum.splits option.splits)
  then show "parseAIResponse N (JStr s)
            = Inr \<lparr> outline = outline (parseClaudeResponse (js_trim s)),
                    opening = opening (parseClaudeResponse (js_trim s)),
                    items = JNull, visualCode = JNull \<rparr>"
    by (simp add: fallback_def Let_def)
qed

text \<open>The theorem on a text that is not JSON and on the empty object in a fence: the
  sections of the second come from the text with its fence.\<close>

theorem fallback_on_failure_witness:
  \<open>parseAIResponse id (JStr (str ''hello''))
     = Inr \<lparr> outline = str ''he'', opening = str ''hello'', items = JNull, visualCode = JNull \<rparr>
   \<and> parseAIResponse id (JStr (fence @ str ''{}'' @ fence))
     = Inr \<lparr> outline = fence @ str ''{'', opening = fence @ str ''{}'' @ fence,
              items = JNull, visualCode = JNull \<rparr>\<close>
proof -
  have h1: "\<exists>e. JSON_parse id (jsonStr_of (js_trim (str ''hello''))) = Inl e"
  proof -
    have "JSON_parse id (jsonStr_of (js_trim (str ''hello''))) = Inl SyntaxError" by code_simp
    then show ?thesis by blast
  qed
  have p1: "parseClaudeResponse (js_trim (str ''hello''))
              = \<lparr> outline = str ''he'', opening = str ''hello'' \<rparr>"
    by code_simp
  have c1: "parseAIResponse id (JStr (str ''hello''))
     = Inr \<lparr> outline = str ''he'', opening = str ''hello'', items = JNull, visualCode = JNull \<rparr>"
    using fallback_on_failure [of id "str ''hello''"] h1 unfolding p1 by simp
  have h2: "\<exists>obj. JSON_parse id (jsonStr_of (js_trim (fence @ str ''{}'' @ fence))) = Inr obj
                \<and> yields_nothing obj"
  proof -
    have "JSON_parse id (jsonStr_of (js_trim (fence @ str ''{}'' @ fence))) = Inr (JObj [])"
      by code_simp
    moreover have "yields_nothing (JObj [])" by code_simp
    ultimately show ?thesis by blast
  qed
  have p2: "parseClaudeResponse (js_trim (fence @ str ''{}'' @ fence))
              = \<lparr> outline = fence @ str ''{'', opening = fence @ str ''{}'' @ fence \<rparr>"
    by code_simp
  have c2: "parseAIResponse id (JStr (fence @ str ''{}'' @ fence))
     = Inr \<lparr> outline = fence @ str ''{'', opening = fence @ str ''{}'' @ fence,
              items = JNull, visualCode = JNull \<rparr>"
    using fallback_on_failure [of id "fence @ str ''{}'' @ fence"] h2 unfolding p2 by simp
  from c1 c2 show ?thesis by simp
qed


text \<open>
  Claim C3, as stated, fails: the parser tests \<open>summary\<close> first. On the object with
  \<open>opening\<close> equal to \<open>O\<close> and \<open>summary\<close> equal to \<open>S\<close> the opening returned is \<open>S\<close>.
\<close>

theorem summary_wins_counterexample:
  \<open>parseAIResponse id (JStr (str ''{"opening":"O","summary":"S"}''))
     = Inr \<lparr> outline = [], opening = str ''S'', items = JNull, visualCode = JNull \<rparr>
   \<and> str ''S'' \<noteq> str ''O''\<close>
  by code_simp

text \<open>
  Claim C3, amended. For every input that decodes to an object whose \<open>opening\<close> and
  \<open>summary\<close> are both strings, if the reading of the fields throws no exception and the
  outline read, the \<open>summary\<close> and the items read are not all empty, the parser returns
  the record read from the fields, and its opening is the value of \<open>summary\<close>.
\<close>

theorem summary_first:
  assumes "JSON_parse N (jsonStr_of (js_trim s)) = Inr (JObj fs)"
    and "map_of fs (str ''opening'') = Some (JStr op)"
    and "map_of fs (str ''summary'') = Some (JStr sm)"
    and "read_fields (JObj fs) = Inr r0"
    and "outline r0 \<noteq> [] \<or> sm \<noteq> [] \<or> truthy (items r0)"
  shows "parseAIResponse N (JStr s) = Inr r0 \<and> opening r0 = sm"
proof -
  have "opening r0 = opening_of (JObj fs)"
    using assms(4) by (intro read_fields_opening) simp_all
  also have "\<dots> = sm" using assms(3) by (simp add: opening_of_def field_def own_def)
  finally have o: "opening r0 = sm" .
  with assms(5) have "outline r0 \<noteq> [] \<or> opening r0 \<noteq> [] \<or> truthy (items r0)" by simp
  with assms(1,4) have "try_block N (jsonStr_of (js_trim s)) = Inr (Some r0)"
    by (simp add: try_block_def bind_exn_def)
  then have "parseAIResponse N (JStr s) = Inr r0" unfolding parse_cases by simp
  with o show ?thesis by simp
qed

text \<open>The theorem on the object of the counterexample.\<close>

theorem summary_first_witness:
  \<open>parseAIResponse id (JStr (str ''{"opening":"O","summary":"S"}''))
     = Inr \<lparr> outline = [], opening = str ''S'', items = JNull, visualCode = JNull \<rparr>\<close>
proof -
  have h1: \<open>JSON_parse id (jsonStr_of (js_trim (str ''{"opening":"O","summary":"S"}'')))
              = Inr (JObj [(str ''opening'', JStr (str ''O'')),
                           (str ''summary'', JStr (str ''S''))])\<close>
    by code_simp
  have h2: "map_of [(str ''opening'', JStr (str ''O'')), (str ''summary'', JStr (str ''S''))]
              (str ''opening'') = Some (JStr (str ''O''))"
    by simp
  have h3: "map_of [(str ''opening'', JStr (str ''O'')), (str ''summary'', JStr (str ''S''))]
              (str ''summary'') = Some (JStr (str ''S''))"
    by (simp add: str_def)
  have h4: "read_fields (JObj [(str ''opening'', JStr (str ''O'')), (str ''summary'', JStr (str ''S''))])
              = Inr \<lparr> outline = [], opening = str ''S'', items = JNull, visualCode = JNull \<rparr>"
    by code_simp
  have h5: "outline \<lparr> outline = [], opening = str ''S'', items = JNull, visualCode = JNull \<rparr> \<noteq> []
            \<or> str ''S'' \<noteq> [] \<or> truthy (items \<lparr> outline = [], opening = str ''S'', items = JNull, visualCode = JNull \<rparr>)"
    by (simp add: str_def)
  show ?thesis by (rule summary_first [OF h1 h2 h3 h4 h5, THEN conjunct1])
qed

end
